theory Spec2Isabelle
  imports Complex_Main
begin

section \<open>Battleship: board model, targeting engine, turns and the session store\<close>

text \<open>
  A shallow embedding of \<^verbatim>\<open>src/battleship/script.js\<close>. The script keeps its state in
  module-level variables and mutates them; here every function takes the state it reads and
  returns the state it leaves. Of the DOM one fact is kept: each board has a cell for every
  index from 0 to \<open>GRID_SIZE * GRID_SIZE - 1\<close> and for no other, and painting a cell that
  is not there throws (\<^verbatim>\<open>markCell\<close>). Status texts, styles and click wiring are left
  out. JavaScript numbers are modelled as unbounded integers: the program only ever holds
  grid indices and shot counters in them.
\<close>

subsection \<open>Errors\<close>

text \<open>
  \<open>TypeError\<close> is the exception JavaScript throws (destructuring \<^verbatim>\<open>undefined\<close>, reading
  a property of \<^verbatim>\<open>undefined\<close>, iterating a value that is not iterable).
  \<open>NotModelled\<close> is not an error of the program: it marks an input on which the script continues with a value the typed model cannot hold (a key that is
  not of the form written by \<open>keyOf\<close>, a snapshot field of another JSON type). No theorem
  says anything about what the script does there.
\<close>

datatype error = TypeError | NotModelled

type_synonym 'a result = "error + 'a"

subsection \<open>Coordinates and keys\<close>

definition GRID_SIZE :: int where
  "GRID_SIZE = 10"

definition SHIPS :: "int list" where
  "SHIPS = [5, 3, 2]"

definition digit_char :: "nat \<Rightarrow> char" where
  "digit_char d = ''0123456789'' ! d"

fun show_nat :: "nat \<Rightarrow> string" where
  "show_nat n = (if n < 10 then [digit_char n] else show_nat (n div 10) @ [digit_char (n mod 10)])"

declare show_nat.simps [simp del]

text \<open>The text a template literal gives for an integer-valued number.\<close>

definition show_int :: "int \<Rightarrow> string" where
  "show_int i = (if i < 0 then CHR ''-'' # show_nat (nat (- i)) else show_nat (nat i))"

text \<open>\<^verbatim>\<open>function keyOf(r, c) { return `${r},${c}`; }\<close>\<close>

definition keyOf :: "int \<Rightarrow> int \<Rightarrow> string" where
  "keyOf r c = show_int r @ '','' @ show_int c"

text \<open>\<^verbatim>\<open>k.split(",")\<close>: the pieces between the commas; never the empty list.\<close>

fun split_comma :: "string \<Rightarrow> string list" where
  "split_comma [] = [[]]"
| "split_comma (ch # cs) =
     (if ch = CHR '','' then [] # split_comma cs
      else (case split_comma cs of [] \<Rightarrow> [[ch]] | w # ws \<Rightarrow> (ch # w) # ws))"

definition digit_val :: "char \<Rightarrow> nat option" where
  "digit_val ch =
     (if ch = CHR ''0'' then Some 0 else if ch = CHR ''1'' then Some 1
      else if ch = CHR ''2'' then Some 2 else if ch = CHR ''3'' then Some 3
      else if ch = CHR ''4'' then Some 4 else if ch = CHR ''5'' then Some 5
      else if ch = CHR ''6'' then Some 6 else if ch = CHR ''7'' then Some 7
      else if ch = CHR ''8'' then Some 8 else if ch = CHR ''9'' then Some 9
      else None)"

fun read_digits :: "string \<Rightarrow> nat \<Rightarrow> nat option" where
  "read_digits [] acc = Some acc"
| "read_digits (ch # cs) acc =
     (case digit_val ch of None \<Rightarrow> None | Some d \<Rightarrow> read_digits cs (10 * acc + d))"

text \<open>
  \<^verbatim>\<open>Number(s)\<close> on the strings the model tracks: an optional minus sign and one or more
  decimal digits. On every other string (the empty string, blanks, fractions, exponents,
  hexadecimal, text) JavaScript gives some number or NaN that the integer model does not
  hold: \<open>NotModelled\<close>.
\<close>

definition Number :: "string \<Rightarrow> int result" where
  "Number s =
     (case s of
        [] \<Rightarrow> Inl NotModelled
      | ch # cs \<Rightarrow>
          (if ch = CHR ''-'' then
             (case cs of
                [] \<Rightarrow> Inl NotModelled
              | _ # _ \<Rightarrow> (case read_digits cs 0 of None \<Rightarrow> Inl NotModelled
                          | Some n \<Rightarrow> Inr (- int n)))
           else (case read_digits s 0 of None \<Rightarrow> Inl NotModelled | Some n \<Rightarrow> Inr (int n))))"

text \<open>
  \<^verbatim>\<open>function parseKey(k) { const [r, c] = k.split(",").map(Number); return { r, c }; }\<close>
  With fewer than two pieces \<^verbatim>\<open>c\<close> is \<^verbatim>\<open>undefined\<close>, which the model does not hold.
\<close>

definition parseKey :: "string \<Rightarrow> (int \<times> int) result" where
  "parseKey k =
     (case split_comma k of
        a # b # _ \<Rightarrow>
          (case Number a of Inl e \<Rightarrow> Inl e
           | Inr r \<Rightarrow> (case Number b of Inl e \<Rightarrow> Inl e | Inr c \<Rightarrow> Inr (r, c)))
      | _ \<Rightarrow> Inl NotModelled)"

definition inBounds :: "int \<Rightarrow> int \<Rightarrow> bool" where
  "inBounds r c \<longleftrightarrow> r \<ge> 0 \<and> r < GRID_SIZE \<and> c \<ge> 0 \<and> c < GRID_SIZE"

text \<open>
  \<^verbatim>\<open>Math.floor(Math.random() * (maxInclusive - min + 1)) + min\<close>, with the value of
  \<^verbatim>\<open>Math.random()\<close> passed in as \<open>u\<close>, a real number (rounding of the product is not
  modelled).
\<close>

definition randomInt :: "real \<Rightarrow> int \<Rightarrow> int \<Rightarrow> int" where
  "randomInt u mn maxInclusive = \<lfloor>u * of_int (maxInclusive - mn + 1)\<rfloor> + mn"

subsection \<open>JavaScript sets\<close>

text \<open>
  A \<^verbatim>\<open>Set\<close> holds each element once and iterates in insertion order: a list without
  duplicates. The representation function is the script's \<^verbatim>\<open>setToArray\<close>
  (\<^verbatim>\<open>Array.from(s)\<close>).
\<close>

typedef 'a jsset = "{xs :: 'a list. distinct xs}"
  morphisms setToArray Abs_jsset
  by (rule exI [of _ "[]"]) simp

setup_lifting type_definition_jsset

lift_definition set_empty :: "'a jsset" is "[]"
  by simp

lift_definition set_has :: "'a jsset \<Rightarrow> 'a \<Rightarrow> bool" is "\<lambda>xs k. k \<in> set xs" .

lift_definition set_add :: "'a jsset \<Rightarrow> 'a \<Rightarrow> 'a jsset"
  is "\<lambda>xs k. if k \<in> set xs then xs else xs @ [k]"
  by simp

lift_definition set_size :: "'a jsset \<Rightarrow> nat" is length .

text \<open>\<^verbatim>\<open>new Set(a)\<close> for an array \<^verbatim>\<open>a\<close>: the elements are added one after the other.\<close>

definition set_of_array :: "'a list \<Rightarrow> 'a jsset" where
  "set_of_array xs = fold (\<lambda>k s. set_add s k) xs set_empty"

subsection \<open>Board model\<close>

record board =
  shipCells :: "string jsset"
  hitCells :: "string jsset"
  missCells :: "string jsset"

definition createEmptyBoard :: board where
  "createEmptyBoard = \<lparr>shipCells = set_empty, hitCells = set_empty, missCells = set_empty\<rparr>"

definition alreadyShot :: "board \<Rightarrow> string \<Rightarrow> bool" where
  "alreadyShot b k \<longleftrightarrow> set_has (hitCells b) k \<or> set_has (missCells b) k"

text \<open>
  The object \<^verbatim>\<open>applyShot\<close> returns: \<^verbatim>\<open>{ valid: false }\<close> or
  \<^verbatim>\<open>{ valid: true, isHit, key }\<close>.
\<close>

datatype shot_result = valid: Shot (isHit: bool) (key: string) | NoShot

text \<open>
  \<^verbatim>\<open>markCell(boardOwner, r, c, isHit)\<close> looks the cell up with \<^verbatim>\<open>getCellEl\<close>, as
  \<^verbatim>\<open>container.children[r * GRID_SIZE + c]\<close>, and paints it. Each board container holds
  \<open>GRID_SIZE * GRID_SIZE\<close> cells from \<^verbatim>\<open>buildBoardUI\<close> on, which runs before any shot and
  before any painting. Outside that range the child is \<^verbatim>\<open>undefined\<close> and reading its
  \<^verbatim>\<open>classList\<close> throws. What is painted is not modelled, so the owner and the flag are
  left out.
\<close>

definition markCell :: "int \<Rightarrow> int \<Rightarrow> unit result" where
  "markCell r c =
     (if 0 \<le> r * GRID_SIZE + c \<and> r * GRID_SIZE + c < GRID_SIZE * GRID_SIZE then Inr ()
      else Inl TypeError)"

text \<open>
  \<^verbatim>\<open>applyShot(board, targetOwner, r, c)\<close>; the owner is only handed to \<^verbatim>\<open>markCell\<close>.
  The result is what the call returns or throws, and the board as the call leaves it: when
  \<^verbatim>\<open>markCell\<close> throws, the key is already in its set.
\<close>

definition applyShot :: "board \<Rightarrow> int \<Rightarrow> int \<Rightarrow> shot_result result \<times> board" where
  "applyShot b r c =
     (let k = keyOf r c in
      if alreadyShot b k then (Inr NoShot, b)
      else
        (let hit = set_has (shipCells b) k in
         (case markCell r c of Inl e \<Rightarrow> Inl e | Inr u \<Rightarrow> Inr (Shot hit k),
          if hit then b\<lparr>hitCells := set_add (hitCells b) k\<rparr>
          else b\<lparr>missCells := set_add (missCells b) k\<rparr>)))"

definition hasWon :: "board \<Rightarrow> bool" where
  "hasWon defenderBoard \<longleftrightarrow> set_size (hitCells defenderBoard) = set_size (shipCells defenderBoard)"

text \<open>
  A sequence of shots at one board, each applied to the board the previous one left (also
  when the previous call threw).
\<close>

fun applyShots :: "board \<Rightarrow> (int \<times> int) list \<Rightarrow> board" where
  "applyShots b [] = b"
| "applyShots b ((r, c) # ps) = applyShots (snd (applyShot b r c)) ps"

text \<open>A board whose only ship cell is (0,0), nothing shot yet.\<close>

definition one_ship_board :: board where
  "one_ship_board = createEmptyBoard\<lparr>shipCells := set_add set_empty (keyOf 0 0)\<rparr>"

text \<open>The elements of a set, without their order, and what the operations do to them.\<close>

definition members :: "'a jsset \<Rightarrow> 'a set" where
  "members s = set (setToArray s)"

lemma members_empty [simp]: "members set_empty = {}"
  by (simp add: members_def set_empty.rep_eq)

lemma members_add [simp]: "members (set_add s k) = insert k (members s)"
  by (auto simp: members_def set_add.rep_eq)

lemma set_has_members: "set_has s k \<longleftrightarrow> k \<in> members s"
  by (simp add: members_def set_has.rep_eq)

lemma finite_members [simp]: "finite (members s)"
  by (simp add: members_def)

lemma set_size_card: "set_size s = card (members s)"
proof -
  have "distinct (setToArray s)"
    using setToArray [of s] by simp
  then show ?thesis
    by (simp add: members_def set_size.rep_eq distinct_card)
qed

lemma members_fold_add: "members (fold (\<lambda>k s. set_add s k) xs s) = set xs \<union> members s"
  by (induction xs arbitrary: s) auto

lemma members_set_of_array [simp]: "members (set_of_array xs) = set xs"
  by (simp add: set_of_array_def members_fold_add)

subsection \<open>Fleet placement\<close>

text \<open>
  The inner loop of \<^verbatim>\<open>placeOneShipRandomly\<close>: the keys of the \<open>len\<close> cells from the
  start cell, downwards when the ship is vertical and to the right when it is not.
\<close>

definition candidate_cells :: "bool \<Rightarrow> int \<Rightarrow> int \<Rightarrow> int \<Rightarrow> string list" where
  "candidate_cells vertical startR startC len =
     map (\<lambda>i. keyOf (if vertical then startR + i else startR) (if vertical then startC else startC + i))
       [0..len - 1]"

text \<open>
  One attempt: three calls of \<^verbatim>\<open>Math.random()\<close>, whose values are \<open>rnd n\<close>,
  \<open>rnd (n + 1)\<close> and \<open>rnd (n + 2)\<close>, give the direction and the start cell.
\<close>

definition draw_candidate :: "(nat \<Rightarrow> real) \<Rightarrow> nat \<Rightarrow> int \<Rightarrow> string list" where
  "draw_candidate rnd n len =
     (let vertical = rnd n < 0.5;
          startR = (if vertical then randomInt (rnd (n + 1)) 0 (GRID_SIZE - len)
                    else randomInt (rnd (n + 1)) 0 (GRID_SIZE - 1));
          startC = (if vertical then randomInt (rnd (n + 2)) 0 (GRID_SIZE - 1)
                    else randomInt (rnd (n + 2)) 0 (GRID_SIZE - len))
      in candidate_cells vertical startR startC len)"

text \<open>
  \<^verbatim>\<open>placeOneShipRandomly(board, length)\<close>, a \<^verbatim>\<open>while (true)\<close> loop that tries again
  whenever the candidate overlaps a ship cell. \<open>rnd\<close> is the sequence of values
  \<^verbatim>\<open>Math.random()\<close> gives and \<open>n\<close> the number of them used so far. The result is the
  board with the ship on it and the number of values used; \<open>None\<close> when the loop never
  ends.
\<close>

partial_function (option) placeOneShipRandomly ::
  "(nat \<Rightarrow> real) \<Rightarrow> nat \<Rightarrow> board \<Rightarrow> int \<Rightarrow> (board \<times> nat) option" where
  "placeOneShipRandomly rnd n b len =
     (let candidate = draw_candidate rnd n len in
      if list_ex (set_has (shipCells b)) candidate then placeOneShipRandomly rnd (n + 3) b len
      else Some (b\<lparr>shipCells := fold (\<lambda>k s. set_add s k) candidate (shipCells b)\<rparr>, n + 3))"

text \<open>
  \<^verbatim>\<open>placeAllShipsRandomly(board)\<close>: the ships of \<open>SHIPS\<close>, one after the other.
\<close>

fun place_each :: "(nat \<Rightarrow> real) \<Rightarrow> nat \<Rightarrow> board \<Rightarrow> int list \<Rightarrow> (board \<times> nat) option" where
  "place_each rnd n b [] = Some (b, n)"
| "place_each rnd n b (len # lens) =
     (case placeOneShipRandomly rnd n b len of
        None \<Rightarrow> None
      | Some (b', n') \<Rightarrow> place_each rnd n' b' lens)"

definition placeAllShipsRandomly :: "(nat \<Rightarrow> real) \<Rightarrow> nat \<Rightarrow> board \<Rightarrow> (board \<times> nat) option" where
  "placeAllShipsRandomly rnd n b = place_each rnd n b SHIPS"

text \<open>
  A source of draws that always gives 0; the cells of the grid, row by row; and a board
  whose every cell is a ship cell.
\<close>

definition zero_draws :: "nat \<Rightarrow> real" where
  "zero_draws n = 0"

definition all_cells :: "(int \<times> int) list" where
  "all_cells = concat (map (\<lambda>r. map (\<lambda>c. (r, c)) [0..GRID_SIZE - 1]) [0..GRID_SIZE - 1])"

definition full_board :: board where
  "full_board = createEmptyBoard\<lparr>shipCells := set_of_array (map (\<lambda>(r, c). keyOf r c) all_cells)\<rparr>"

text \<open>
  The runs of \<open>len\<close> cells that lie in the grid, each with its direction and first cell,
  and the boards on which none of them is free of ship cells.
\<close>

definition runs_in_grid :: "int \<Rightarrow> (bool \<times> int \<times> int) list" where
  "runs_in_grid len =
     map (\<lambda>(r, c). (True, r, c)) (List.product [0..GRID_SIZE - len] [0..GRID_SIZE - 1]) @
     map (\<lambda>(r, c). (False, r, c)) (List.product [0..GRID_SIZE - 1] [0..GRID_SIZE - len])"

definition no_free_run :: "board \<Rightarrow> int \<Rightarrow> bool" where
  "no_free_run b len \<longleftrightarrow>
     list_all
       (\<lambda>(vertical, startR, startC).
          list_ex (set_has (shipCells b)) (candidate_cells vertical startR startC len))
       (runs_in_grid len)"

lemma inBounds_all_cells: "inBounds r c \<Longrightarrow> (r, c) \<in> set all_cells"
  by (auto simp: inBounds_def all_cells_def image_iff)

subsection \<open>Game state\<close>

datatype turn = USER | AI

datatype mode = HUNT | TARGET

datatype orientation = H | V

record shots =
  hits :: int
  misses :: int

record ai_state =
  mode :: mode
  targetQueue :: "string list"
  clusterHits :: "string list"

record game =
  userBoard :: board
  aiBoard :: board
  currentTurn :: turn
  gameOver :: bool
  userShots :: shots
  aiShots :: shots
  aiState :: ai_state

subsection \<open>Targeting engine\<close>

definition neighbors4 :: "int \<Rightarrow> int \<Rightarrow> (int \<times> int) list" where
  "neighbors4 r c =
     filter (\<lambda>p. inBounds (fst p) (snd p)) [(r - 1, c), (r + 1, c), (r, c - 1), (r, c + 1)]"

text \<open>
  The inner loop of \<^verbatim>\<open>recomputeClusterFromHit\<close>: every neighbour that is a hit cell and
  not yet visited is marked visited and appended to the work queue.
\<close>

fun visit_neighbors ::
  "board \<Rightarrow> (int \<times> int) list \<Rightarrow> string jsset \<Rightarrow> string list \<Rightarrow> string jsset \<times> string list" where
  "visit_neighbors ub [] visited queue = (visited, queue)"
| "visit_neighbors ub (nb # nbs) visited queue =
     (let nk = keyOf (fst nb) (snd nb) in
      if \<not> set_has visited nk \<and> set_has (hitCells ub) nk
      then visit_neighbors ub nbs (set_add visited nk) (queue @ [nk])
      else visit_neighbors ub nbs visited queue)"

text \<open>
  The keys of the grid's cells, and the facts the termination proof of the search needs:
  a pass over the neighbours either changes nothing or adds keys of the grid to the visited
  set, of which there are finitely many.
\<close>

definition all_keys :: "string set" where
  "all_keys = (\<lambda>(r, c). keyOf r c) ` set all_cells"

lemma finite_all_keys [simp]: "finite all_keys"
  by (simp add: all_keys_def)

lemma neighbors4_keys: "nb \<in> set (neighbors4 r c) \<Longrightarrow> keyOf (fst nb) (snd nb) \<in> all_keys"
proof -
  assume "nb \<in> set (neighbors4 r c)"
  then have "inBounds (fst nb) (snd nb)"
    unfolding neighbors4_def set_filter by simp
  from inBounds_all_cells [OF this] show ?thesis
    unfolding all_keys_def by (auto simp: image_iff intro!: bexI [of _ "(fst nb, snd nb)"])
qed

lemma grow_step:
  "B = insert k A \<or> (insert k A \<subset> B \<and> B - insert k A \<subseteq> K) \<Longrightarrow> k \<notin> A \<Longrightarrow> k \<in> K \<Longrightarrow>
   A \<subset> B \<and> B - A \<subseteq> K"
  by auto

lemma shrink_step:
  assumes "A \<subset> B" "B - A \<subseteq> K"
  shows "K - B \<subset> K - A"
proof -
  from assms(1) obtain x where x: "x \<in> B" "x \<notin> A"
    by (auto simp: psubset_eq)
  with assms(2) have "x \<in> K - A" "x \<notin> K - B" by auto
  moreover have "K - B \<subseteq> K - A" using assms(1) by auto
  ultimately show ?thesis by auto
qed

lemma visit_neighbors_cases:
  "visit_neighbors ub nbs visited queue = (v', q') \<Longrightarrow>
   \<forall>nb \<in> set nbs. keyOf (fst nb) (snd nb) \<in> all_keys \<Longrightarrow>
   (v' = visited \<and> q' = queue) \<or>
   (members visited \<subset> members v' \<and> members v' - members visited \<subseteq> all_keys)"
proof (induction nbs arbitrary: visited queue)
  case Nil
  then show ?case by simp
next
  case (Cons nb nbs)
  let ?nk = "keyOf (fst nb) (snd nb)"
  from Cons.prems(2) have nk: "?nk \<in> all_keys"
    and rest: "\<forall>nb \<in> set nbs. keyOf (fst nb) (snd nb) \<in> all_keys"
    by simp_all
  show ?case
  proof (cases "\<not> set_has visited ?nk \<and> set_has (hitCells ub) ?nk")
    case True
    with Cons.prems(1)
    have "visit_neighbors ub nbs (set_add visited ?nk) (queue @ [?nk]) = (v', q')"
      by (simp add: Let_def)
    from Cons.IH [OF this rest]
    have "members v' = insert ?nk (members visited) \<or>
         (insert ?nk (members visited) \<subset> members v' \<and>
          members v' - insert ?nk (members visited) \<subseteq> all_keys)"
      by (elim disjE conjE) (simp_all only: members_add simp_thms)
    moreover have "?nk \<notin> members visited"
      using True by (simp add: set_has_members)
    ultimately have "members visited \<subset> members v' \<and> members v' - members visited \<subseteq> all_keys"
      using nk by (rule grow_step)
    then show ?thesis ..
  next
    case False
    with Cons.prems(1) have "visit_neighbors ub nbs visited queue = (v', q')"
      by (simp add: Let_def)
    from Cons.IH [OF this rest] show ?thesis .
  qed
qed

function bfs_loop :: "board \<Rightarrow> string jsset \<Rightarrow> string list \<Rightarrow> string list result" where
  "bfs_loop ub visited [] = Inr (setToArray visited)"
| "bfs_loop ub visited (k # queue) =
     (case parseKey k of
        Inl e \<Rightarrow> Inl e
      | Inr p \<Rightarrow>
          (case visit_neighbors ub (neighbors4 (fst p) (snd p)) visited queue of
             (visited', queue') \<Rightarrow> bfs_loop ub visited' queue'))"
  by pat_completeness auto
termination
proof (relation "(\<lambda>(ub, visited, queue). card (all_keys - members visited)) <*mlex*>
                 measure (\<lambda>(ub, visited, queue). length queue)", goal_cases)
  case 1
  show ?case by (simp add: wf_mlex)
next
  case (2 ub visited k queue p visited' queue')
  then have v: "visit_neighbors ub (neighbors4 (fst p) (snd p)) visited queue = (visited', queue')"
    by simp
  have "\<forall>nb \<in> set (neighbors4 (fst p) (snd p)). keyOf (fst nb) (snd nb) \<in> all_keys"
    using neighbors4_keys by blast
  from visit_neighbors_cases [OF v this]
  show ?case
  proof (elim disjE conjE)
    assume "visited' = visited" "queue' = queue"
    then show ?thesis by (simp add: mlex_iff)
  next
    assume "members visited \<subset> members visited'" "members visited' - members visited \<subseteq> all_keys"
    then have "all_keys - members visited' \<subset> all_keys - members visited"
      by (rule shrink_step)
    then have "card (all_keys - members visited') < card (all_keys - members visited)"
      by (simp add: psubset_card_mono)
    then show ?thesis by (simp add: mlex_iff)
  qed
qed

text \<open>
  \<^verbatim>\<open>recomputeClusterFromHit(hitKey)\<close>: breadth-first search over the hit cells of the
  user's board, from \<open>hitKey\<close>; the visited set is returned in insertion order.
\<close>

definition recomputeClusterFromHit :: "board \<Rightarrow> string \<Rightarrow> string list result" where
  "recomputeClusterFromHit ub hitKey = bfs_loop ub (set_add set_empty hitKey) [hitKey]"

definition uniquePush :: "string list \<Rightarrow> string \<Rightarrow> string list" where
  "uniquePush queue k = (if k \<in> set queue then queue else queue @ [k])"

text \<open>The inner loop of \<^verbatim>\<open>aiQueueAdjacentsFromHits\<close>, over the neighbours of one hit.\<close>

fun push_unshot :: "board \<Rightarrow> (int \<times> int) list \<Rightarrow> string list \<Rightarrow> string list" where
  "push_unshot ub [] queue = queue"
| "push_unshot ub (nb # nbs) queue =
     (let nk = keyOf (fst nb) (snd nb) in
      push_unshot ub nbs (if \<not> alreadyShot ub nk then uniquePush queue nk else queue))"

text \<open>
  \<^verbatim>\<open>aiQueueAdjacentsFromHits(clusterHits)\<close> reads the user's board and appends to
  \<^verbatim>\<open>aiState.targetQueue\<close>; the queue is passed in and returned.
\<close>

fun aiQueueAdjacentsFromHits :: "board \<Rightarrow> string list \<Rightarrow> string list \<Rightarrow> string list result" where
  "aiQueueAdjacentsFromHits ub [] queue = Inr queue"
| "aiQueueAdjacentsFromHits ub (hk # hks) queue =
     (case parseKey hk of
        Inl e \<Rightarrow> Inl e
      | Inr p \<Rightarrow> aiQueueAdjacentsFromHits ub hks (push_unshot ub (neighbors4 (fst p) (snd p)) queue))"

text \<open>\<^verbatim>\<open>clusterHits.map(parseKey)\<close>\<close>

fun parse_all :: "string list \<Rightarrow> (int \<times> int) list result" where
  "parse_all [] = Inr []"
| "parse_all (k # ks) =
     (case parseKey k of
        Inl e \<Rightarrow> Inl e
      | Inr p \<Rightarrow> (case parse_all ks of Inl e \<Rightarrow> Inl e | Inr ps \<Rightarrow> Inr (p # ps)))"

definition inferOrientation :: "string list \<Rightarrow> orientation option result" where
  "inferOrientation cluster =
     (if length cluster < 2 then Inr None
      else
        (case parse_all cluster of
           Inl e \<Rightarrow> Inl e
         | Inr coords \<Rightarrow>
             (let allSameRow = list_all (\<lambda>p. fst p = fst (hd coords)) coords;
                  allSameCol = list_all (\<lambda>p. snd p = snd (hd coords)) coords
              in if allSameRow then Inr (Some H)
                 else if allSameCol then Inr (Some V)
                 else Inr None)))"

text \<open>
  The two line ends that \<^verbatim>\<open>extendLineTargets\<close> puts in \<^verbatim>\<open>front\<close>: each only if it is
  in bounds and not shot yet.
\<close>

definition front_of :: "board \<Rightarrow> int \<times> int \<Rightarrow> int \<times> int \<Rightarrow> string list" where
  "front_of ub a b =
     (if inBounds (fst a) (snd a) \<and> \<not> alreadyShot ub (keyOf (fst a) (snd a))
      then [keyOf (fst a) (snd a)] else []) @
     (if inBounds (fst b) (snd b) \<and> \<not> alreadyShot ub (keyOf (fst b) (snd b))
      then [keyOf (fst b) (snd b)] else [])"

text \<open>
  \<^verbatim>\<open>extendLineTargets(clusterHits, orientation)\<close>, on the queue. \<^verbatim>\<open>coords[0]\<close> of an
  empty cluster is \<^verbatim>\<open>undefined\<close>, and reading its field throws.
\<close>

definition extendLineTargets ::
  "board \<Rightarrow> string list \<Rightarrow> orientation \<Rightarrow> string list \<Rightarrow> string list result" where
  "extendLineTargets ub cluster ori queue =
     (case parse_all cluster of
        Inl e \<Rightarrow> Inl e
      | Inr [] \<Rightarrow> Inl TypeError
      | Inr (p0 # ps) \<Rightarrow>
          (let front =
             (case ori of
                H \<Rightarrow>
                  (let row = fst p0;
                       minC = fold min (map snd ps) (snd p0);
                       maxC = fold max (map snd ps) (snd p0)
                   in front_of ub (row, minC - 1) (row, maxC + 1))
              | V \<Rightarrow>
                  (let col = snd p0;
                       minR = fold min (map fst ps) (fst p0);
                       maxR = fold max (map fst ps) (fst p0)
                   in front_of ub (minR - 1, col) (maxR + 1, col)))
           in (case aiQueueAdjacentsFromHits ub cluster queue of
                 Inl e \<Rightarrow> Inl e
               | Inr queue' \<Rightarrow> Inr (front @ filter (\<lambda>k. k \<notin> set front) queue'))))"

text \<open>
  \<^verbatim>\<open>aiChooseHuntTarget()\<close>, with the value of \<^verbatim>\<open>Math.random()\<close> as \<open>u\<close>. Reading the
  pool outside its range gives \<^verbatim>\<open>undefined\<close>: \<open>None\<close>.
\<close>

definition unshot_cells :: "board \<Rightarrow> (int \<times> int) list" where
  "unshot_cells ub = filter (\<lambda>p. \<not> alreadyShot ub (keyOf (fst p) (snd p))) all_cells"

definition aiChooseHuntTarget :: "real \<Rightarrow> board \<Rightarrow> (int \<times> int) option" where
  "aiChooseHuntTarget u ub =
     (let parityCells = filter (\<lambda>p. (fst p + snd p) mod 2 = 0) (unshot_cells ub);
          otherCells = filter (\<lambda>p. (fst p + snd p) mod 2 \<noteq> 0) (unshot_cells ub);
          pool = (if parityCells \<noteq> [] then parityCells else otherCells);
          i = randomInt u 0 (int (length pool) - 1)
      in if 0 \<le> i \<and> i < int (length pool) then Some (pool ! nat i) else None)"

text \<open>
  \<^verbatim>\<open>aiChooseTargetModeCell()\<close>: the queue is shifted until a key that is not shot yet
  comes up; the result and the queue that is left.
\<close>

fun aiChooseTargetModeCell :: "board \<Rightarrow> string list \<Rightarrow> ((int \<times> int) option \<times> string list) result" where
  "aiChooseTargetModeCell ub [] = Inr (None, [])"
| "aiChooseTargetModeCell ub (k # queue) =
     (if \<not> alreadyShot ub k then
        (case parseKey k of Inl e \<Rightarrow> Inl e | Inr p \<Rightarrow> Inr (Some p, queue))
      else aiChooseTargetModeCell ub queue)"

definition aiDecideNextShot :: "real \<Rightarrow> game \<Rightarrow> ((int \<times> int) option \<times> game) result" where
  "aiDecideNextShot u g =
     (if mode (aiState g) = TARGET then
        (case aiChooseTargetModeCell (userBoard g) (targetQueue (aiState g)) of
           Inl e \<Rightarrow> Inl e
         | Inr (Some t, queue) \<Rightarrow> Inr (Some t, g\<lparr>aiState := (aiState g)\<lparr>targetQueue := queue\<rparr>\<rparr>)
         | Inr (None, queue) \<Rightarrow>
             Inr (aiChooseHuntTarget u (userBoard g),
                  g\<lparr>aiState := \<lparr>mode = HUNT, targetQueue = queue, clusterHits = []\<rparr>\<rparr>))
      else Inr (aiChooseHuntTarget u (userBoard g), g))"

definition aiAfterHit :: "game \<Rightarrow> string \<Rightarrow> game result" where
  "aiAfterHit g hitKey =
     (case recomputeClusterFromHit (userBoard g) hitKey of
        Inl e \<Rightarrow> Inl e
      | Inr cluster \<Rightarrow>
          (case aiQueueAdjacentsFromHits (userBoard g) cluster (targetQueue (aiState g)) of
             Inl e \<Rightarrow> Inl e
           | Inr queue \<Rightarrow>
               (case inferOrientation cluster of
                  Inl e \<Rightarrow> Inl e
                | Inr None \<Rightarrow>
                    Inr (g\<lparr>aiState := \<lparr>mode = TARGET, targetQueue = queue, clusterHits = cluster\<rparr>\<rparr>)
                | Inr (Some ori) \<Rightarrow>
                    (case extendLineTargets (userBoard g) cluster ori queue of
                       Inl e \<Rightarrow> Inl e
                     | Inr queue' \<Rightarrow>
                         Inr (g\<lparr>aiState :=
                               \<lparr>mode = TARGET, targetQueue = queue', clusterHits = cluster\<rparr>\<rparr>)))))"

definition aiAfterMiss :: "game \<Rightarrow> game" where
  "aiAfterMiss g =
     (if targetQueue (aiState g) = []
      then g\<lparr>aiState := (aiState g)\<lparr>mode := HUNT, clusterHits := []\<rparr>\<rparr>
      else g)"

subsection \<open>Turns\<close>

text \<open>\<^verbatim>\<open>endGame(winner)\<close>; the winner only selects the status text.\<close>

definition endGame :: "game \<Rightarrow> game" where
  "endGame g = g\<lparr>gameOver := True\<rparr>"

text \<open>
  The two handlers below return what the call returned or threw, together with the state
  it left. The value returned says whether \<^verbatim>\<open>aiTakeTurnLoop\<close> was scheduled with
  \<^verbatim>\<open>setTimeout\<close>. After \<open>TypeError\<close> the state is the one the script is left in (the
  exception ends the handler). After \<open>NotModelled\<close> the state has no meaning. The status
  texts, the interactivity of the cells and the write to \<^verbatim>\<open>localStorage\<close> are not
  modelled; the elements they use are taken to exist.

  \<^verbatim>\<open>onUserFireAtAI(e)\<close>, with the row and column of the clicked cell.
\<close>

definition onUserFireAtAI :: "game \<Rightarrow> int \<Rightarrow> int \<Rightarrow> bool result \<times> game" where
  "onUserFireAtAI g r c =
     (if gameOver g then (Inr False, g)
      else if currentTurn g \<noteq> USER then (Inr False, g)
      else
        (case applyShot (aiBoard g) r c of
           (Inl e, b) \<Rightarrow> (Inl e, g\<lparr>aiBoard := b\<rparr>)
         | (Inr NoShot, b) \<Rightarrow> (Inr False, g\<lparr>aiBoard := b\<rparr>)
         | (Inr (Shot hit k), b) \<Rightarrow>
             if hit then
               (let g1 = g\<lparr>aiBoard := b,
                           userShots := (userShots g)\<lparr>hits := hits (userShots g) + 1\<rparr>\<rparr>
                in if hasWon (aiBoard g1) then (Inr False, endGame g1)
                   else (Inr False, g1\<lparr>currentTurn := USER\<rparr>))
             else
               (Inr True,
                g\<lparr>aiBoard := b,
                  userShots := (userShots g)\<lparr>misses := misses (userShots g) + 1\<rparr>,
                  currentTurn := AI\<rparr>)))"

text \<open>
  One run of \<^verbatim>\<open>aiTakeTurnLoop()\<close>, with the value \<^verbatim>\<open>Math.random()\<close> gives if it is
  called. Destructuring the \<^verbatim>\<open>undefined\<close> that \<^verbatim>\<open>aiDecideNextShot\<close> may return throws.
\<close>

definition aiTakeTurnLoop :: "real \<Rightarrow> game \<Rightarrow> bool result \<times> game" where
  "aiTakeTurnLoop u g =
     (if gameOver g then (Inr False, g)
      else if currentTurn g \<noteq> AI then (Inr False, g)
      else
        (case aiDecideNextShot u g of
           Inl e \<Rightarrow> (Inl e, g)
         | Inr (None, g0) \<Rightarrow> (Inl TypeError, g0)
         | Inr (Some (r, c), g0) \<Rightarrow>
             (case applyShot (userBoard g0) r c of
                (Inl e, b) \<Rightarrow> (Inl e, g0\<lparr>userBoard := b\<rparr>)
              | (Inr NoShot, b) \<Rightarrow> (Inr False, g0\<lparr>userBoard := b\<rparr>)
              | (Inr (Shot hit k), b) \<Rightarrow>
                  if hit then
                    (let g1 = g0\<lparr>userBoard := b,
                                 aiShots := (aiShots g0)\<lparr>hits := hits (aiShots g0) + 1\<rparr>\<rparr>
                     in case aiAfterHit g1 k of
                          Inl e \<Rightarrow> (Inl e, g1)
                        | Inr g2 \<Rightarrow>
                            if hasWon (userBoard g2) then (Inr False, endGame g2)
                            else (Inr True, g2\<lparr>currentTurn := AI\<rparr>))
                  else
                    (Inr False,
                     (aiAfterMiss
                        (g0\<lparr>userBoard := b,
                            aiShots := (aiShots g0)\<lparr>misses := misses (aiShots g0) + 1\<rparr>\<rparr>))
                     \<lparr>currentTurn := USER\<rparr>))))"

subsection \<open>Session store\<close>

text \<open>
  The values \<^verbatim>\<open>JSON.parse\<close> returns. Numbers are integers (the script writes counters
  only). An object is the list of its properties, looked up from the front. The text in
  \<^verbatim>\<open>localStorage\<close> is not modelled: \<^verbatim>\<open>JSON.parse(JSON.stringify(v))\<close> is taken to be
  \<open>v\<close> for these values.
\<close>

datatype json =
  JNull | JBool bool | JNum int | JStr string | JArr "json list" | JObj "(string \<times> json) list"

text \<open>\<^verbatim>\<open>x?.name\<close>, where \<open>None\<close> is \<^verbatim>\<open>undefined\<close>, for the property names the script reads.\<close>

definition getprop :: "json option \<Rightarrow> string \<Rightarrow> json option" where
  "getprop x name = (case x of Some (JObj fs) \<Rightarrow> map_of fs name | _ \<Rightarrow> None)"

text \<open>Truthiness, as \<^verbatim>\<open>!!x\<close> and \<^verbatim>\<open>x || d\<close> test it.\<close>

definition truthy :: "json option \<Rightarrow> bool" where
  "truthy x =
     (case x of
        None \<Rightarrow> False
      | Some JNull \<Rightarrow> False
      | Some (JBool b) \<Rightarrow> b
      | Some (JNum n) \<Rightarrow> n \<noteq> 0
      | Some (JStr s) \<Rightarrow> s \<noteq> []
      | Some (JArr xs) \<Rightarrow> True
      | Some (JObj fs) \<Rightarrow> True)"

fun strings_of :: "json list \<Rightarrow> string list option" where
  "strings_of [] = Some []"
| "strings_of (x # xs) =
     (case x of
        JStr s \<Rightarrow> (case strings_of xs of None \<Rightarrow> None | Some ss \<Rightarrow> Some (s # ss))
      | _ \<Rightarrow> None)"

text \<open>
  \<^verbatim>\<open>function arrayToSet(a) { return new Set(a || []); }\<close> A truthy value that is not
  iterable (a number, \<^verbatim>\<open>true\<close>, an object) makes \<^verbatim>\<open>new Set\<close> throw. A string gives the
  set of its characters and an array with other elements than strings a set of those:
  neither fits a set of keys.
\<close>

definition arrayToSet :: "json option \<Rightarrow> string jsset result" where
  "arrayToSet a =
     (if \<not> truthy a then Inr set_empty
      else
        (case a of
           Some (JArr xs) \<Rightarrow>
             (case strings_of xs of None \<Rightarrow> Inl NotModelled | Some ks \<Rightarrow> Inr (set_of_array ks))
         | Some (JStr s) \<Rightarrow> Inl NotModelled
         | _ \<Rightarrow> Inl TypeError))"

definition turn_text :: "turn \<Rightarrow> string" where
  "turn_text t = (case t of USER \<Rightarrow> ''USER'' | AI \<Rightarrow> ''AI'')"

definition mode_text :: "mode \<Rightarrow> string" where
  "mode_text m = (case m of HUNT \<Rightarrow> ''HUNT'' | TARGET \<Rightarrow> ''TARGET'')"

definition board_json :: "board \<Rightarrow> json" where
  "board_json b =
     JObj [(''shipCells'', JArr (map JStr (setToArray (shipCells b)))),
           (''hitCells'', JArr (map JStr (setToArray (hitCells b)))),
           (''missCells'', JArr (map JStr (setToArray (missCells b))))]"

definition shots_json :: "shots \<Rightarrow> json" where
  "shots_json s = JObj [(''hits'', JNum (hits s)), (''misses'', JNum (misses s))]"

text \<open>
  The payload \<^verbatim>\<open>saveGame()\<close> writes. The two texts are read from the DOM and are
  parameters here.
\<close>

definition saveGame :: "game \<Rightarrow> string \<Rightarrow> string \<Rightarrow> json" where
  "saveGame g subtitle status =
     JObj [(''version'', JNum 2),
           (''currentTurn'', JStr (turn_text (currentTurn g))),
           (''gameOver'', JBool (gameOver g)),
           (''userShots'', shots_json (userShots g)),
           (''aiShots'', shots_json (aiShots g)),
           (''userBoard'', board_json (userBoard g)),
           (''aiBoard'', board_json (aiBoard g)),
           (''aiState'',
              JObj [(''mode'', JStr (mode_text (mode (aiState g)))),
                    (''targetQueue'', JArr (map JStr (targetQueue (aiState g)))),
                    (''clusterHits'', JArr (map JStr (clusterHits (aiState g))))]),
           (''ui'', JObj [(''subtitle'', JStr subtitle), (''status'', JStr status)])]"

text \<open>The three \<^verbatim>\<open>arrayToSet\<close> calls that restore one board.\<close>

definition load_board :: "json option \<Rightarrow> board result" where
  "load_board b =
     (case arrayToSet (getprop b ''shipCells'') of
        Inl e \<Rightarrow> Inl e
      | Inr ship \<Rightarrow>
          (case arrayToSet (getprop b ''hitCells'') of
             Inl e \<Rightarrow> Inl e
           | Inr hit \<Rightarrow>
               (case arrayToSet (getprop b ''missCells'') of
                  Inl e \<Rightarrow> Inl e
                | Inr miss \<Rightarrow> Inr \<lparr>shipCells = ship, hitCells = hit, missCells = miss\<rparr>)))"

text \<open>
  \<^verbatim>\<open>data?.userShots || { hits: 0, misses: 0 }\<close>: a truthy value is taken as it is. It
  fits the model when it is an object with integer \<^verbatim>\<open>hits\<close> and \<^verbatim>\<open>misses\<close>.
\<close>

definition load_shots :: "json option \<Rightarrow> shots result" where
  "load_shots s =
     (if \<not> truthy s then Inr \<lparr>hits = 0, misses = 0\<rparr>
      else
        (case (getprop s ''hits'', getprop s ''misses'') of
           (Some (JNum h), Some (JNum m)) \<Rightarrow> Inr \<lparr>hits = h, misses = m\<rparr>
         | _ \<Rightarrow> Inl NotModelled))"

text \<open>\<^verbatim>\<open>Array.isArray(x) ? x : []\<close>, for an array of keys.\<close>

definition load_keys :: "json option \<Rightarrow> string list result" where
  "load_keys x =
     (case x of
        Some (JArr xs) \<Rightarrow> (case strings_of xs of None \<Rightarrow> Inl NotModelled | Some ks \<Rightarrow> Inr ks)
      | _ \<Rightarrow> Inr [])"

text \<open>
  The loops of \<^verbatim>\<open>loadGame\<close> that paint the restored shots: each key of a set is parsed
  and its cell marked.
\<close>

fun paint_cells :: "string list \<Rightarrow> unit result" where
  "paint_cells [] = Inr ()"
| "paint_cells (k # ks) =
     (case parseKey k of
        Inl e \<Rightarrow> Inl e
      | Inr p \<Rightarrow> (case markCell (fst p) (snd p) of Inl e \<Rightarrow> Inl e | Inr u \<Rightarrow> paint_cells ks))"

definition paint_board :: "board \<Rightarrow> unit result" where
  "paint_board b =
     (case paint_cells (setToArray (hitCells b)) of
        Inl e \<Rightarrow> Inl e
      | Inr u \<Rightarrow> paint_cells (setToArray (missCells b)))"

text \<open>
  \<^verbatim>\<open>loadGame()\<close>. The argument is what \<^verbatim>\<open>JSON.parse\<close> makes of the stored text;
  \<open>None\<close> when there is no text or it does not parse, and then the function returns
  \<^verbatim>\<open>false\<close> (\<open>Inr None\<close>). \<open>Inr (Some g)\<close> is the return of \<^verbatim>\<open>true\<close> with the state
  set to \<open>g\<close>. The \<^verbatim>\<open>version\<close> property is never read. The state is restored first
  and the shots are painted after, the user's board before the computer's; when that throws,
  the function does not return (\<open>Inl TypeError\<close>; the state the script is left in is not
  tracked here). Restoring the two texts is not modelled.
\<close>

definition loadGame :: "json option \<Rightarrow> game option result" where
  "loadGame raw =
     (case raw of
        None \<Rightarrow> Inr None
      | Some d \<Rightarrow>
          (let data = Some d in
           case load_board (getprop data ''userBoard'') of
             Inl e \<Rightarrow> Inl e
           | Inr ub \<Rightarrow>
           (case load_board (getprop data ''aiBoard'') of
             Inl e \<Rightarrow> Inl e
           | Inr ab \<Rightarrow>
           (case load_shots (getprop data ''userShots'') of
             Inl e \<Rightarrow> Inl e
           | Inr us \<Rightarrow>
           (case load_shots (getprop data ''aiShots'') of
             Inl e \<Rightarrow> Inl e
           | Inr as \<Rightarrow>
           (case load_keys (getprop (getprop data ''aiState'') ''targetQueue'') of
             Inl e \<Rightarrow> Inl e
           | Inr queue \<Rightarrow>
           (case load_keys (getprop (getprop data ''aiState'') ''clusterHits'') of
             Inl e \<Rightarrow> Inl e
           | Inr cluster \<Rightarrow>
           (case paint_board ub of
             Inl e \<Rightarrow> Inl e
           | Inr u \<Rightarrow>
           (case paint_board ab of
             Inl e \<Rightarrow> Inl e
           | Inr u' \<Rightarrow>
               Inr (Some
                 \<lparr>userBoard = ub, aiBoard = ab,
                  currentTurn = (if getprop data ''currentTurn'' = Some (JStr ''AI'') then AI else USER),
                  gameOver = truthy (getprop data ''gameOver''),
                  userShots = us, aiShots = as,
                  aiState =
                    \<lparr>mode = (if getprop (getprop data ''aiState'') ''mode'' = Some (JStr ''TARGET'')
                              then TARGET else HUNT),
                     targetQueue = queue, clusterHits = cluster\<rparr>\<rparr>))))))))))"

text \<open>The state \<^verbatim>\<open>resetGame()\<close> sets up before it places the ships.\<close>

definition fresh_game :: game where
  "fresh_game =
     \<lparr>userBoard = createEmptyBoard, aiBoard = createEmptyBoard, currentTurn = USER,
      gameOver = False, userShots = \<lparr>hits = 0, misses = 0\<rparr>, aiShots = \<lparr>hits = 0, misses = 0\<rparr>,
      aiState = \<lparr>mode = HUNT, targetQueue = [], clusterHits = []\<rparr>\<rparr>"

subsection \<open>New game and the states of play\<close>

text \<open>
  \<^verbatim>\<open>resetGame()\<close>: empty boards, zero tallies, \<open>HUNT\<close> mode, the user's turn, then the
  ships on the user's board and on the computer's. \<open>None\<close> when a placement never ends.
\<close>

definition resetGame :: "(nat \<Rightarrow> real) \<Rightarrow> nat \<Rightarrow> (game \<times> nat) option" where
  "resetGame rnd n =
     (case placeAllShipsRandomly rnd n (userBoard fresh_game) of
        None \<Rightarrow> None
      | Some (ub, n1) \<Rightarrow>
          (case placeAllShipsRandomly rnd n1 (aiBoard fresh_game) of
             None \<Rightarrow> None
           | Some (ab, n2) \<Rightarrow> Some (fresh_game\<lparr>userBoard := ub, aiBoard := ab\<rparr>, n2)))"

text \<open>
  The states of play: those \<^verbatim>\<open>resetGame\<close> sets up, and those the two handlers leave
  when they run in such a state, the click handler at a cell of the grid and the computer's
  turn with a value of \<^verbatim>\<open>Math.random()\<close> in [0,1). (Loading what \<^verbatim>\<open>saveGame\<close> wrote in
  such a state gives that state again, so it adds none.)
\<close>

inductive reachable :: "game \<Rightarrow> bool" where
  reset: "\<forall>i. 0 \<le> rnd i \<and> rnd i < 1 \<Longrightarrow> resetGame rnd n = Some (g, n') \<Longrightarrow> reachable g"
| user_fire: "reachable g \<Longrightarrow> inBounds r c \<Longrightarrow> reachable (snd (onUserFireAtAI g r c))"
| ai_turn: "reachable g \<Longrightarrow> 0 \<le> u \<Longrightarrow> u < 1 \<Longrightarrow> reachable (snd (aiTakeTurnLoop u g))"

text \<open>Every key that was shot at, queued or put in the cluster is the key of a cell of the grid.\<close>

definition keys_in_grid :: "game \<Rightarrow> bool" where
  "keys_in_grid g \<longleftrightarrow>
     members (hitCells (userBoard g)) \<union> members (missCells (userBoard g)) \<subseteq> all_keys \<and>
     members (hitCells (aiBoard g)) \<union> members (missCells (aiBoard g)) \<subseteq> all_keys \<and>
     set (targetQueue (aiState g)) \<subseteq> all_keys \<and>
     set (clusterHits (aiState g)) \<subseteq> all_keys"

subsection \<open>The targeting scenario\<close>

definition seeded_board :: board where
  "seeded_board = createEmptyBoard\<lparr>shipCells := set_of_array [keyOf 4 3, keyOf 4 4, keyOf 4 5]\<rparr>"

definition seeded_game :: game where
  "seeded_game = fresh_game\<lparr>userBoard := seeded_board\<rparr>"

definition hit_at :: "game \<Rightarrow> int \<Rightarrow> int \<Rightarrow> game result" where
  "hit_at g r c = aiAfterHit (g\<lparr>userBoard := snd (applyShot (userBoard g) r c)\<rparr>) (keyOf r c)"

fun hit_sequence :: "game \<Rightarrow> (int \<times> int) list \<Rightarrow> game result" where
  "hit_sequence g [] = Inr g"
| "hit_sequence g ((r, c) # ps) =
     (case hit_at g r c of Inl e \<Rightarrow> Inl e | Inr g' \<Rightarrow> hit_sequence g' ps)"

definition seeded_after :: "string list \<Rightarrow> string list \<Rightarrow> string list \<Rightarrow> game" where
  "seeded_after hs queue cluster =
     seeded_game\<lparr>userBoard := seeded_board\<lparr>hitCells := set_of_array hs\<rparr>,
                 aiState := \<lparr>mode = TARGET, targetQueue = queue, clusterHits = cluster\<rparr>\<rparr>"

subsection \<open>Doctored snapshots\<close>

text \<open>
  One with a version the script never writes. One with the script's own names for the turn
  and the mode, and the state it loads to; the same with the turn and mode names of the
  specification in their place; and the same with numbers in their place.
\<close>

definition future_snapshot :: json where
  "future_snapshot =
     JObj [(''version'', JNum 99), (''currentTurn'', JStr ''AI''), (''gameOver'', JBool True)]"





subsection \<open>Sample games\<close>

text \<open>The computer to move in \<open>HUNT\<close> mode against the seeded board.\<close>

definition ai_hunt_game :: game where
  "ai_hunt_game = seeded_game\<lparr>currentTurn := AI\<rparr>"

text \<open>
  A sequence of draws under which attempt number \<open>k\<close> lays its ship to the right from
  column 0 of row \<open>2 * k mod 10\<close>; the game \<^verbatim>\<open>resetGame\<close> sets up with it; and that game
  after the user missed at (9,9), after the computer then hit at (0,0), and after it then
  missed at (1,0).
\<close>

definition demo_draws :: "nat \<Rightarrow> real" where
  "demo_draws n =
     (if n mod 3 = 0 then 1 / 2
      else if n mod 3 = 1 then real ((2 * (n div 3)) mod 10) / 10
      else 0)"

definition demo_game :: game where
  "demo_game =
     fresh_game
       \<lparr>userBoard := createEmptyBoard
          \<lparr>shipCells := set_of_array
             (candidate_cells False 0 0 5 @ candidate_cells False 2 0 3 @ candidate_cells False 4 0 2)\<rparr>,
        aiBoard := createEmptyBoard
          \<lparr>shipCells := set_of_array
             (candidate_cells False 6 0 5 @ candidate_cells False 8 0 3 @ candidate_cells False 0 0 2)\<rparr>\<rparr>"

definition demo_missed :: game where
  "demo_missed =
     demo_game
       \<lparr>aiBoard := (aiBoard demo_game)\<lparr>missCells := set_of_array [keyOf 9 9]\<rparr>,
        userShots := \<lparr>hits = 0, misses = 1\<rparr>,
        currentTurn := AI\<rparr>"

definition demo_found :: game where
  "demo_found =
     demo_missed
       \<lparr>userBoard := (userBoard demo_game)\<lparr>hitCells := set_of_array [keyOf 0 0]\<rparr>,
        aiShots := \<lparr>hits = 1, misses = 0\<rparr>,
        aiState := \<lparr>mode = TARGET, targetQueue = [keyOf 1 0, keyOf 0 1], clusterHits = [keyOf 0 0]\<rparr>\<rparr>"

definition demo_play :: game where
  "demo_play =
     demo_found
       \<lparr>userBoard := (userBoard demo_found)\<lparr>missCells := set_of_array [keyOf 1 0]\<rparr>,
        aiShots := \<lparr>hits = 1, misses = 1\<rparr>,
        aiState := \<lparr>mode = TARGET, targetQueue = [keyOf 0 1], clusterHits = [keyOf 0 0]\<rparr>,
        currentTurn := USER\<rparr>"


section \<open>Properties\<close>

subsection \<open>Keys\<close>

lemma keyOf_0_0: "keyOf 0 0 = ''0,0''"
  by (simp add: keyOf_def show_int_def show_nat.simps digit_char_def)

lemma keyOf_1_1: "keyOf 1 1 = ''1,1''"
  by (simp add: keyOf_def show_int_def show_nat.simps digit_char_def)

lemma digit_cases:
  "d < 10 \<Longrightarrow> d = 0 \<or> d = 1 \<or> d = 2 \<or> d = 3 \<or> d = 4 \<or> d = 5 \<or> d = 6 \<or> d = 7 \<or> d = 8 \<or> d = (9::nat)"
proof -
  assume "d < 10"
  then have "d \<in> set [0..<10]" by simp
  also have "[0..<10] = [0, 1, 2, 3, 4, 5, 6, 7, 8, 9::nat]" by code_simp
  finally show ?thesis by simp
qed

lemma digit_val_digit_char: "d < 10 \<Longrightarrow> digit_val (digit_char d) = Some d"
  by (drule digit_cases, elim disjE) (simp_all add: digit_val_def digit_char_def)

lemma digit_char_not_sep: "d < 10 \<Longrightarrow> digit_char d \<noteq> CHR '','' \<and> digit_char d \<noteq> CHR ''-''"
  by (drule digit_cases, elim disjE) (simp_all add: digit_char_def)

lemma inBounds_nat: "inBounds r c \<Longrightarrow> nat r < 10 \<and> nat c < 10 \<and> 0 \<le> r \<and> 0 \<le> c"
  unfolding inBounds_def GRID_SIZE_def by linarith

lemma keyOf_digits:
  "inBounds r c \<Longrightarrow> keyOf r c = [digit_char (nat r), CHR '','', digit_char (nat c)]"
  using inBounds_nat [of r c]
  by (simp add: keyOf_def show_int_def show_nat.simps [of "nat r"] show_nat.simps [of "nat c"])

lemma parseKey_keyOf: "inBounds r c \<Longrightarrow> parseKey (keyOf r c) = Inr (r, c)"
proof -
  assume b: "inBounds r c"
  then have r: "nat r < 10" and c: "nat c < 10" and nn: "0 \<le> r" "0 \<le> c"
    using inBounds_nat [of r c] by simp_all
  show ?thesis
    using digit_char_not_sep [OF r] digit_char_not_sep [OF c] nn
    by (simp add: keyOf_digits [OF b] parseKey_def Number_def
        digit_val_digit_char [OF r] digit_val_digit_char [OF c])
qed

lemma keyOf_inject:
  assumes "inBounds r c" "inBounds r' c'"
  shows "keyOf r c = keyOf r' c' \<longleftrightarrow> r = r' \<and> c = c'"
proof
  assume "keyOf r c = keyOf r' c'"
  then have "parseKey (keyOf r c) = parseKey (keyOf r' c')" by simp
  then show "r = r' \<and> c = c'"
    by (simp add: parseKey_keyOf assms)
qed simp

subsection \<open>Board model\<close>

lemma applyShot_already:
  "alreadyShot b (keyOf r c) \<Longrightarrow> applyShot b r c = (Inr NoShot, b)"
  by (simp add: applyShot_def)

lemma applyShot_then_shot: "alreadyShot (snd (applyShot b r c)) (keyOf r c)"
  by (simp add: applyShot_def alreadyShot_def Let_def set_has_members)

lemma applyShot_ship [simp]: "shipCells (snd (applyShot b r c)) = shipCells b"
  by (simp add: applyShot_def Let_def)

lemma applyShot_hit_mono: "members (hitCells b) \<subseteq> members (hitCells (snd (applyShot b r c)))"
  by (auto simp: applyShot_def Let_def)

lemma applyShot_miss_mono: "members (missCells b) \<subseteq> members (missCells (snd (applyShot b r c)))"
  by (auto simp: applyShot_def Let_def)

lemma applyShot_disjoint:
  "members (hitCells b) \<inter> members (missCells b) = {} \<Longrightarrow>
   members (hitCells (snd (applyShot b r c))) \<inter> members (missCells (snd (applyShot b r c))) = {}"
  by (auto simp: applyShot_def Let_def alreadyShot_def set_has_members)

lemma applyShot_hit_sub:
  "members (hitCells b) \<subseteq> members (shipCells b) \<Longrightarrow>
   members (hitCells (snd (applyShot b r c))) \<subseteq> members (shipCells (snd (applyShot b r c)))"
  by (auto simp: applyShot_def Let_def alreadyShot_def set_has_members)

text \<open>
  C4. Over any sequence of shots at a board, \<open>hitCells\<close> and \<open>missCells\<close> only grow; if
  they were disjoint they stay disjoint; and if \<open>hitCells\<close> was within \<open>shipCells\<close> it stays
  within. (Both conditions hold of an empty board.)
\<close>

theorem applyShots_coverage:
  "members (hitCells b) \<subseteq> members (hitCells (applyShots b ps)) \<and>
   members (missCells b) \<subseteq> members (missCells (applyShots b ps)) \<and>
   (members (hitCells b) \<inter> members (missCells b) = {} \<longrightarrow>
      members (hitCells (applyShots b ps)) \<inter> members (missCells (applyShots b ps)) = {}) \<and>
   (members (hitCells b) \<subseteq> members (shipCells b) \<longrightarrow>
      members (hitCells (applyShots b ps)) \<subseteq> members (shipCells (applyShots b ps)))"
proof (induction b ps rule: applyShots.induct)
  case (1 b)
  show ?case by simp
next
  case (2 b r c ps)
  from 2 applyShot_hit_mono [of b r c] applyShot_miss_mono [of b r c]
    applyShot_disjoint [of b r c] applyShot_hit_sub [of b r c]
  show ?case by (simp del: applyShot_ship) blast
qed

theorem applyShots_coverage_witness:
  "members (hitCells one_ship_board) \<inter> members (missCells one_ship_board) = {} \<and>
   members (hitCells one_ship_board) \<subseteq> members (shipCells one_ship_board) \<and>
   members (hitCells (applyShots one_ship_board [(0, 0), (1, 1), (0, 0)])) = {keyOf 0 0} \<and>
   members (missCells (applyShots one_ship_board [(0, 0), (1, 1), (0, 0)])) = {keyOf 1 1} \<and>
   members (hitCells (applyShots one_ship_board [(0, 0), (1, 1), (0, 0)])) \<inter>
     members (missCells (applyShots one_ship_board [(0, 0), (1, 1), (0, 0)])) = {} \<and>
   members (hitCells (applyShots one_ship_board [(0, 0), (1, 1), (0, 0)])) \<subseteq>
     members (shipCells (applyShots one_ship_board [(0, 0), (1, 1), (0, 0)]))"
  using applyShots_coverage [of one_ship_board "[(0, 0), (1, 1), (0, 0)]"]
  by (simp add: one_ship_board_def createEmptyBoard_def applyShot_def alreadyShot_def
      set_has_members keyOf_0_0 keyOf_1_1 Let_def)

text \<open>
  C7. A shot at a coordinate that is already in \<open>hitCells\<close> or \<open>missCells\<close> is rejected and
  leaves the board as it was; so the second of two shots at one coordinate is rejected and
  changes nothing.
\<close>

theorem applyShot_refire_noop:
  "(alreadyShot b (keyOf r c) \<longrightarrow>
      fst (applyShot b r c) = Inr NoShot \<and> snd (applyShot b r c) = b) \<and>
   fst (applyShot (snd (applyShot b r c)) r c) = Inr NoShot \<and>
   snd (applyShot (snd (applyShot b r c)) r c) = snd (applyShot b r c)"
  using applyShot_then_shot [of b r c]
  by (simp add: applyShot_already)

theorem applyShot_refire_noop_witness:
  "alreadyShot (snd (applyShot createEmptyBoard 0 0)) (keyOf 0 0) \<and>
   fst (applyShot (snd (applyShot createEmptyBoard 0 0)) 0 0) = Inr NoShot \<and>
   snd (applyShot (snd (applyShot createEmptyBoard 0 0)) 0 0) = snd (applyShot createEmptyBoard 0 0)"
  using applyShot_refire_noop [of "snd (applyShot createEmptyBoard 0 0)" 0 0]
  by (simp add: applyShot_def createEmptyBoard_def alreadyShot_def set_has_members Let_def)

text \<open>
  C8. On a board whose \<open>hitCells\<close> lie within \<open>shipCells\<close>, \<open>hasWon\<close> holds exactly when
  every ship cell is a hit cell; a board with no ship cells is won.
\<close>

theorem hasWon_exact:
  assumes "members (hitCells b) \<subseteq> members (shipCells b)"
  shows "(hasWon b \<longleftrightarrow> members (shipCells b) \<subseteq> members (hitCells b)) \<and>
         (members (shipCells b) = {} \<longrightarrow> hasWon b)"
proof -
  have "card (members (hitCells b)) = card (members (shipCells b)) \<longleftrightarrow>
        members (shipCells b) \<subseteq> members (hitCells b)"
    using assms by (metis card_subset_eq finite_members subset_antisym)
  moreover have "members (shipCells b) = {} \<longrightarrow> members (hitCells b) = {}"
    using assms by auto
  ultimately show ?thesis
    by (auto simp: hasWon_def set_size_card)
qed

theorem hasWon_exact_witness:
  "members (hitCells (applyShots one_ship_board [(0, 0)]))
     \<subseteq> members (shipCells (applyShots one_ship_board [(0, 0)])) \<and>
   hasWon (applyShots one_ship_board [(0, 0)]) \<and> \<not> hasWon one_ship_board \<and>
   hasWon createEmptyBoard"
  using hasWon_exact [of "applyShots one_ship_board [(0, 0)]"] hasWon_exact [of one_ship_board]
    hasWon_exact [of createEmptyBoard]
  by (simp add: one_ship_board_def createEmptyBoard_def applyShot_def alreadyShot_def
      set_has_members keyOf_0_0 Let_def)

subsection \<open>Fleet placement\<close>

lemma place_some_attempt:
  assumes "placeOneShipRandomly rnd n b len = Some y"
  shows "\<exists>j. \<not> list_ex (set_has (shipCells b)) (draw_candidate rnd (n + 3 * j) len)"
proof (rule placeOneShipRandomly.raw_induct
    [where P = "\<lambda>rnd n b len y.
       \<exists>j. \<not> list_ex (set_has (shipCells b)) (draw_candidate rnd (n + 3 * j) len)",
     OF _ assms])
  fix f :: "(nat \<Rightarrow> real) \<Rightarrow> nat \<Rightarrow> board \<Rightarrow> int \<Rightarrow> (board \<times> nat) option"
  fix rnd n b len y
  assume IH: "\<And>rnd n b len y. f rnd n b len = Some y \<Longrightarrow>
    \<exists>j. \<not> list_ex (set_has (shipCells b)) (draw_candidate rnd (n + 3 * j) len)"
  assume body: "(let candidate = draw_candidate rnd n len in
      if list_ex (set_has (shipCells b)) candidate then f rnd (n + 3) b len
      else Some (b\<lparr>shipCells := fold (\<lambda>k s. set_add s k) candidate (shipCells b)\<rparr>, n + 3))
    = Some y"
  show "\<exists>j. \<not> list_ex (set_has (shipCells b)) (draw_candidate rnd (n + 3 * j) len)"
  proof (cases "list_ex (set_has (shipCells b)) (draw_candidate rnd n len)")
    case True
    with body have "f rnd (n + 3) b len = Some y" by (simp add: Let_def)
    from IH [OF this] obtain j where
      "\<not> list_ex (set_has (shipCells b)) (draw_candidate rnd (n + 3 + 3 * j) len)" by blast
    then have "\<not> list_ex (set_has (shipCells b)) (draw_candidate rnd (n + 3 * Suc j) len)"
      by (simp add: add.assoc)
    then show ?thesis by blast
  next
    case False
    then have "\<not> list_ex (set_has (shipCells b)) (draw_candidate rnd (n + 3 * 0) len)" by simp
    then show ?thesis by blast
  qed
qed

lemma place_attempt_some:
  "\<not> list_ex (set_has (shipCells b)) (draw_candidate rnd (n + 3 * j) len) \<Longrightarrow>
   \<exists>y. placeOneShipRandomly rnd n b len = Some y"
proof (induction j arbitrary: n)
  case 0
  then show ?case by (subst placeOneShipRandomly.simps) (simp add: Let_def)
next
  case (Suc j)
  then have "\<not> list_ex (set_has (shipCells b)) (draw_candidate rnd (n + 3 + 3 * j) len)"
    by (simp add: add.assoc)
  from Suc.IH [OF this] obtain y where y: "placeOneShipRandomly rnd (n + 3) b len = Some y" ..
  show ?case
    by (subst placeOneShipRandomly.simps) (simp add: Let_def y)
qed

lemma randomInt_range:
  assumes "0 \<le> u" "u < 1" "mn \<le> mx"
  shows "mn \<le> randomInt u mn mx \<and> randomInt u mn mx \<le> mx"
proof -
  define k where "k = mx - mn + 1"
  have k: "0 < k" using assms(3) by (simp add: k_def)
  have "0 \<le> u * of_int k" using assms(1) k by simp
  then have lo: "0 \<le> \<lfloor>u * of_int k\<rfloor>" by simp
  have "u * of_int k < of_int k" using assms(2) k by simp
  then have "\<lfloor>u * of_int k\<rfloor> < k" by (simp only: floor_less_iff)
  with lo show ?thesis unfolding randomInt_def k_def [symmetric] by (simp add: k_def)
qed

lemma runs_in_grid_iff:
  "(vertical, startR, startC) \<in> set (runs_in_grid len) \<longleftrightarrow>
     0 \<le> startR \<and> 0 \<le> startC \<and>
     (if vertical then startR \<le> GRID_SIZE - len \<and> startC \<le> GRID_SIZE - 1
      else startR \<le> GRID_SIZE - 1 \<and> startC \<le> GRID_SIZE - len)"
  by (auto simp: runs_in_grid_def)

lemma no_free_run_iff:
  "no_free_run b len \<longleftrightarrow>
     (\<forall>vertical startR startC.
        0 \<le> startR \<and> 0 \<le> startC \<and>
        (if vertical then startR \<le> GRID_SIZE - len \<and> startC \<le> GRID_SIZE - 1
         else startR \<le> GRID_SIZE - 1 \<and> startC \<le> GRID_SIZE - len)
        \<longrightarrow> list_ex (set_has (shipCells b)) (candidate_cells vertical startR startC len))"
proof -
  have "no_free_run b len \<longleftrightarrow>
     (\<forall>vertical startR startC. (vertical, startR, startC) \<in> set (runs_in_grid len)
        \<longrightarrow> list_ex (set_has (shipCells b)) (candidate_cells vertical startR startC len))"
    unfolding no_free_run_def list_all_iff by fast
  then show ?thesis
    by (simp only: runs_in_grid_iff)
qed

lemma draw_candidate_overlaps:
  assumes rnd: "\<forall>i. 0 \<le> rnd i \<and> rnd i < 1" and len: "1 \<le> len" "len \<le> GRID_SIZE"
    and full: "no_free_run b len"
  shows "list_ex (set_has (shipCells b)) (draw_candidate rnd n len)"
proof -
  have u1: "0 \<le> rnd (n + 1)" "rnd (n + 1) < 1" and u2: "0 \<le> rnd (n + 2)" "rnd (n + 2) < 1"
    using rnd by auto
  have a: "0 \<le> GRID_SIZE - len" and b: "0 \<le> GRID_SIZE - 1"
    using len by (simp_all add: GRID_SIZE_def)
  note r1 = randomInt_range [OF u1 a] randomInt_range [OF u1 b]
  note r2 = randomInt_range [OF u2 a] randomInt_range [OF u2 b]
  show ?thesis
    using full r1 r2 unfolding no_free_run_iff draw_candidate_def Let_def
    by (cases "rnd n < 0.5") auto
qed

lemma place_never_returns:
  assumes "\<forall>i. 0 \<le> rnd i \<and> rnd i < 1" "1 \<le> len" "len \<le> GRID_SIZE" "no_free_run b len"
  shows "placeOneShipRandomly rnd n b len = None"
proof (cases "placeOneShipRandomly rnd n b len")
  case None
  then show ?thesis .
next
  case (Some y)
  from place_some_attempt [OF this] draw_candidate_overlaps [OF assms]
  show ?thesis by blast
qed

lemma full_board_no_free_run: "1 \<le> len \<Longrightarrow> len \<le> GRID_SIZE \<Longrightarrow> no_free_run full_board len"
proof -
  assume len: "1 \<le> len" "len \<le> GRID_SIZE"
  have first: "candidate_cells v r c len = keyOf r c # tl (candidate_cells v r c len)" for v r c
    using len by (simp add: candidate_cells_def upto_rec1 [of 0 "len - 1"])
  have "list_ex (set_has (shipCells full_board)) (candidate_cells v r c len)"
    if "inBounds r c" for v r c
  proof -
    have "set_has (shipCells full_board) (keyOf r c)"
      using inBounds_all_cells [OF that]
      by (force simp: full_board_def set_has_members)
    then show ?thesis by (subst first) simp
  qed
  then show ?thesis
    using len unfolding no_free_run_iff inBounds_def
    by (auto simp: GRID_SIZE_def split: if_splits)
qed

text \<open>
  C3 (as amended). \<^verbatim>\<open>placeOneShipRandomly\<close> has no cap on its attempts and no
  \<open>PlacementError\<close>: it returns exactly when some attempt draws a run that does not
  overlap \<open>shipCells\<close>, and on a board on which every in-bounds run of the length overlaps
  it never returns, whatever the draws.
\<close>

theorem placeOneShipRandomly_unbounded:
  "((\<exists>y. placeOneShipRandomly rnd n b len = Some y) \<longleftrightarrow>
      (\<exists>j. \<not> list_ex (set_has (shipCells b)) (draw_candidate rnd (n + 3 * j) len))) \<and>
   ((\<forall>i. 0 \<le> rnd i \<and> rnd i < 1) \<and> 1 \<le> len \<and> len \<le> GRID_SIZE \<and> no_free_run b len
      \<longrightarrow> placeOneShipRandomly rnd n b len = None)"
  using place_some_attempt [of rnd n b len] place_attempt_some [of b rnd n _ len]
    place_never_returns [of rnd len b n]
  by blast

text \<open>
  The claim as stated fails: on the full board, placing a ship of length 2 does not return.
\<close>

theorem placeOneShipRandomly_loops_counterexample:
  "placeOneShipRandomly zero_draws 0 full_board 2 = None"
  by (rule place_never_returns) (simp_all add: zero_draws_def GRID_SIZE_def full_board_no_free_run)

theorem placeOneShipRandomly_unbounded_witness:
  "(\<forall>i. 0 \<le> zero_draws i \<and> zero_draws i < 1) \<and> (1::int) \<le> 3 \<and> 3 \<le> GRID_SIZE \<and>
   no_free_run full_board 3 \<and> placeOneShipRandomly zero_draws 0 full_board 3 = None \<and>
   (\<exists>y. placeOneShipRandomly zero_draws 0 createEmptyBoard 3 = Some y)"
proof -
  have "\<not> list_ex (set_has (shipCells createEmptyBoard)) (draw_candidate zero_draws (3 * 0) 3)"
    by (simp add: createEmptyBoard_def list_ex_iff set_has_members)
  then have "\<exists>j. \<not> list_ex (set_has (shipCells createEmptyBoard)) (draw_candidate zero_draws (3 * j) 3)"
    by (rule exI)
  then show ?thesis
    using placeOneShipRandomly_unbounded [of zero_draws 0 full_board 3]
      placeOneShipRandomly_unbounded [of zero_draws 0 createEmptyBoard 3]
      full_board_no_free_run [of 3]
    by (simp add: zero_draws_def GRID_SIZE_def)
qed

subsection \<open>Targeting scenario\<close>

lemmas scenario_simps =
  hit_at_def applyShot_def aiAfterHit_def recomputeClusterFromHit_def neighbors4_def
  parseKey_keyOf keyOf_inject inBounds_def GRID_SIZE_def set_has_members alreadyShot_def
  Let_def uniquePush_def inferOrientation_def extendLineTargets_def
  front_of_def seeded_after_def seeded_game_def seeded_board_def fresh_game_def
  createEmptyBoard_def

lemma step1:
  "hit_at seeded_game 4 4 =
     Inr (seeded_after [keyOf 4 4] [keyOf 3 4, keyOf 5 4, keyOf 4 3, keyOf 4 5] [keyOf 4 4])"
  by (simp add: scenario_simps set_of_array_def set_add.rep_eq set_empty.rep_eq)


lemma step2:
  "hit_at (seeded_after [keyOf 4 4] [keyOf 3 4, keyOf 5 4, keyOf 4 3, keyOf 4 5] [keyOf 4 4]) 4 3 =
     Inr (seeded_after [keyOf 4 4, keyOf 4 3]
            [keyOf 4 2, keyOf 4 5, keyOf 3 4, keyOf 5 4, keyOf 4 3, keyOf 3 3, keyOf 5 3]
            [keyOf 4 3, keyOf 4 4])"
  by (simp add: scenario_simps set_of_array_def set_add.rep_eq set_empty.rep_eq)

lemma step3:
  "hit_at (seeded_after [keyOf 4 4, keyOf 4 3]
            [keyOf 4 2, keyOf 4 5, keyOf 3 4, keyOf 5 4, keyOf 4 3, keyOf 3 3, keyOf 5 3]
            [keyOf 4 3, keyOf 4 4]) 4 5 =
     Inr (seeded_after [keyOf 4 4, keyOf 4 3, keyOf 4 5]
            [keyOf 4 2, keyOf 4 6, keyOf 4 5, keyOf 3 4, keyOf 5 4, keyOf 4 3, keyOf 3 3,
             keyOf 5 3, keyOf 3 5, keyOf 5 5]
            [keyOf 4 5, keyOf 4 4, keyOf 4 3])"
  by (simp add: scenario_simps set_of_array_def set_add.rep_eq set_empty.rep_eq)

lemma orientation3:
  "inferOrientation [keyOf 4 5, keyOf 4 4, keyOf 4 3] = Inr (Some H)"
  by (simp add: inferOrientation_def parseKey_keyOf inBounds_def GRID_SIZE_def)

text \<open>
  C1. On a board whose only ship is at row 4, columns 3 to 5, the hits (4,4), (4,3), (4,5),
  each entered in \<open>hitCells\<close> and then given to \<^verbatim>\<open>aiAfterHit\<close>, leave the engine in
  \<open>TARGET\<close> mode with \<open>clusterHits\<close> the three cells, orientation \<open>H\<close>, and a
  \<open>targetQueue\<close> that starts with the line ends (4,2) and (4,6), ahead of the adjacency
  candidates.
\<close>

theorem targeting_convergence:
  "\<exists>g. hit_sequence seeded_game [(4, 4), (4, 3), (4, 5)] = Inr g \<and>
       mode (aiState g) = TARGET \<and>
       set (clusterHits (aiState g)) = {keyOf 4 3, keyOf 4 4, keyOf 4 5} \<and>
       distinct (clusterHits (aiState g)) \<and>
       inferOrientation (clusterHits (aiState g)) = Inr (Some H) \<and>
       targetQueue (aiState g) =
         [keyOf 4 2, keyOf 4 6] @
         [keyOf 4 5, keyOf 3 4, keyOf 5 4, keyOf 4 3, keyOf 3 3, keyOf 5 3, keyOf 3 5, keyOf 5 5]"
proof -
  have "hit_sequence seeded_game [(4, 4), (4, 3), (4, 5)] =
     Inr (seeded_after [keyOf 4 4, keyOf 4 3, keyOf 4 5]
            [keyOf 4 2, keyOf 4 6, keyOf 4 5, keyOf 3 4, keyOf 5 4, keyOf 4 3, keyOf 3 3,
             keyOf 5 3, keyOf 3 5, keyOf 5 5]
            [keyOf 4 5, keyOf 4 4, keyOf 4 3])"
    by (simp add: step1 step2 step3)
  then show ?thesis
    by (simp add: orientation3 seeded_after_def keyOf_inject inBounds_def GRID_SIZE_def
        insert_commute)
qed

subsection \<open>Session store\<close>

lemma strings_of_map_JStr [simp]: "strings_of (map JStr xs) = Some xs"
  by (induction xs) simp_all

lemma setToArray_fold_add:
  "distinct (setToArray s @ xs) \<Longrightarrow>
   setToArray (fold (\<lambda>k s. set_add s k) xs s) = setToArray s @ xs"
proof (induction xs arbitrary: s)
  case Nil
  then show ?case by simp
next
  case (Cons x xs)
  from Cons.prems have x: "x \<notin> set (setToArray s)" by simp
  then have step: "setToArray (set_add s x) = setToArray s @ [x]"
    by (simp add: set_add.rep_eq)
  with Cons.prems have "distinct (setToArray (set_add s x) @ xs)" by simp
  from Cons.IH [OF this] step show ?case by simp
qed

lemma set_of_array_setToArray [simp]: "set_of_array (setToArray s) = s"
proof -
  have "distinct (setToArray s)" using setToArray [of s] by simp
  then have "setToArray (set_of_array (setToArray s)) = setToArray s"
    by (simp add: set_of_array_def setToArray_fold_add set_empty.rep_eq)
  then show ?thesis by (simp add: setToArray_inject)
qed

lemma arrayToSet_saved [simp]: "arrayToSet (Some (JArr (map JStr (setToArray s)))) = Inr s"
  by (simp add: arrayToSet_def truthy_def)

lemma load_board_saved [simp]: "load_board (Some (board_json b)) = Inr b"
  by (simp add: load_board_def board_json_def getprop_def)

lemma load_shots_saved [simp]: "load_shots (Some (shots_json s)) = Inr s"
  by (simp add: load_shots_def shots_json_def getprop_def truthy_def)

lemma load_keys_saved [simp]: "load_keys (Some (JArr (map JStr ks))) = Inr ks"
  by (simp add: load_keys_def)

text \<open>
  C2 (as amended). \<^verbatim>\<open>loadGame\<close> never reads the version: two snapshots that agree on
  every property but \<^verbatim>\<open>version\<close> load to the same result.
\<close>

theorem loadGame_ignores_version:
  assumes "\<forall>n. n \<noteq> ''version'' \<longrightarrow> getprop (Some d) n = getprop (Some d') n"
  shows "loadGame (Some d) = loadGame (Some d')"
proof -
  have "getprop (Some d) ''userBoard'' = getprop (Some d') ''userBoard''"
    "getprop (Some d) ''aiBoard'' = getprop (Some d') ''aiBoard''"
    "getprop (Some d) ''userShots'' = getprop (Some d') ''userShots''"
    "getprop (Some d) ''aiShots'' = getprop (Some d') ''aiShots''"
    "getprop (Some d) ''aiState'' = getprop (Some d') ''aiState''"
    "getprop (Some d) ''currentTurn'' = getprop (Some d') ''currentTurn''"
    "getprop (Some d) ''gameOver'' = getprop (Some d') ''gameOver''"
    using assms by simp_all
  then show ?thesis
    by (simp add: loadGame_def Let_def cong: sum.case_cong)
qed

lemma load_empty_parts:
  "load_board None = Inr createEmptyBoard" "load_shots None = Inr \<lparr>hits = 0, misses = 0\<rparr>"
  "load_keys None = Inr []" "paint_board createEmptyBoard = Inr ()"
  by (simp_all add: load_board_def load_shots_def load_keys_def arrayToSet_def truthy_def
      getprop_def createEmptyBoard_def paint_board_def set_empty.rep_eq)

theorem loadGame_ignores_version_witness:
  "getprop (Some future_snapshot) ''version'' = Some (JNum 99) \<and>
   getprop (Some (JObj [(''currentTurn'', JStr ''AI''), (''gameOver'', JBool True)])) ''version''
     = None \<and>
   loadGame (Some future_snapshot) =
     loadGame (Some (JObj [(''currentTurn'', JStr ''AI''), (''gameOver'', JBool True)]))"
proof -
  have h: "\<forall>n. n \<noteq> ''version'' \<longrightarrow>
      getprop (Some future_snapshot) n =
      getprop (Some (JObj [(''currentTurn'', JStr ''AI''), (''gameOver'', JBool True)])) n"
    by (simp add: future_snapshot_def getprop_def)
  from loadGame_ignores_version [OF h] show ?thesis
    by (simp add: future_snapshot_def getprop_def)
qed

text \<open>
  The claim as stated fails: a snapshot of version 99 is loaded and its fields are trusted.
\<close>

theorem loadGame_trusts_future_version_counterexample:
  "loadGame (Some future_snapshot) = Inr (Some (fresh_game\<lparr>currentTurn := AI, gameOver := True\<rparr>)) \<and>
   loadGame (Some future_snapshot) \<noteq> Inr (Some fresh_game) \<and>
   loadGame (Some future_snapshot) \<noteq> Inr None"
  by (simp add: loadGame_def future_snapshot_def getprop_def truthy_def load_empty_parts
      fresh_game_def Let_def)

subsection \<open>Hunt mode\<close>

lemma all_cells_iff: "p \<in> set all_cells \<longleftrightarrow> inBounds (fst p) (snd p)"
  by (cases p) (auto simp: all_cells_def inBounds_def image_iff)

lemma unshot_cells_iff:
  "p \<in> set (unshot_cells ub) \<longleftrightarrow>
   inBounds (fst p) (snd p) \<and> \<not> alreadyShot ub (keyOf (fst p) (snd p))"
  by (auto simp: unshot_cells_def all_cells_iff)

lemma pool_pick:
  assumes "0 \<le> u" "u < 1" "pool \<noteq> []"
  shows "0 \<le> randomInt u 0 (int (length pool) - 1) \<and>
         randomInt u 0 (int (length pool) - 1) < int (length pool)"
proof -
  have "0 \<le> int (length pool) - 1" using assms(3) by (cases pool) simp_all
  from randomInt_range [OF assms(1,2) this] show ?thesis by simp
qed

text \<open>
  C9. When \<^verbatim>\<open>Math.random()\<close> gives a value in [0,1) and some cell of the grid has not
  been shot, \<^verbatim>\<open>aiChooseHuntTarget\<close> returns a cell (never \<^verbatim>\<open>undefined\<close>) that is in
  bounds and not shot, of even parity whenever an unshot cell of even parity exists; and in
  \<open>HUNT\<close> mode \<^verbatim>\<open>aiDecideNextShot\<close> returns that cell without error and leaves the
  state as it was.
\<close>

theorem hunt_target_total:
  assumes u: "0 \<le> u" "u < 1"
    and free: "inBounds r0 c0" "\<not> alreadyShot ub (keyOf r0 c0)"
  shows "\<exists>r c. aiChooseHuntTarget u ub = Some (r, c) \<and>
           inBounds r c \<and> \<not> alreadyShot ub (keyOf r c) \<and>
           ((\<exists>r' c'. inBounds r' c' \<and> \<not> alreadyShot ub (keyOf r' c') \<and> (r' + c') mod 2 = 0)
              \<longrightarrow> (r + c) mod 2 = 0) \<and>
           (\<forall>g. userBoard g = ub \<and> mode (aiState g) = HUNT
              \<longrightarrow> aiDecideNextShot u g = Inr (Some (r, c), g))"
proof -
  define parityCells where "parityCells = filter (\<lambda>p. (fst p + snd p) mod 2 = 0) (unshot_cells ub)"
  define otherCells where "otherCells = filter (\<lambda>p. (fst p + snd p) mod 2 \<noteq> 0) (unshot_cells ub)"
  define pool where "pool = (if parityCells \<noteq> [] then parityCells else otherCells)"
  define i where "i = randomInt u 0 (int (length pool) - 1)"
  have mem: "(r0, c0) \<in> set (unshot_cells ub)"
    using free by (simp add: unshot_cells_iff)
  then have "(r0, c0) \<in> set parityCells \<or> (r0, c0) \<in> set otherCells"
    unfolding parityCells_def otherCells_def set_filter by blast
  then have ne: "pool \<noteq> []"
    unfolding pool_def by (cases "parityCells = []") auto
  from pool_pick [OF u ne] have i: "0 \<le> i" "i < int (length pool)"
    by (simp_all add: i_def)
  then have nth: "pool ! nat i \<in> set pool" by simp
  have "aiChooseHuntTarget u ub =
      (if 0 \<le> i \<and> i < int (length pool) then Some (pool ! nat i) else None)"
    unfolding aiChooseHuntTarget_def Let_def i_def pool_def parityCells_def otherCells_def
    by (rule refl)
  with i have choose: "aiChooseHuntTarget u ub = Some (pool ! nat i)"
    by simp
  have sub: "set pool \<subseteq> set (unshot_cells ub)"
    by (auto simp: pool_def parityCells_def otherCells_def)
  obtain r c where rc: "pool ! nat i = (r, c)" by (cases "pool ! nat i")
  with nth sub have unshot: "inBounds r c" "\<not> alreadyShot ub (keyOf r c)"
    by (auto simp: unshot_cells_iff)
  have even: "(r + c) mod 2 = 0"
    if "inBounds r' c'" "\<not> alreadyShot ub (keyOf r' c')" "(r' + c') mod 2 = 0" for r' c'
  proof -
    from that have "(r', c') \<in> set parityCells"
      by (simp add: parityCells_def unshot_cells_iff)
    then have "pool = parityCells" by (auto simp: pool_def)
    with nth rc show ?thesis by (auto simp: parityCells_def)
  qed
  have decide: "aiDecideNextShot u g = Inr (Some (r, c), g)"
    if "userBoard g = ub" "mode (aiState g) = HUNT" for g
    using that choose rc by (simp add: aiDecideNextShot_def)
  show ?thesis
  proof (intro exI conjI impI allI)
    show "aiChooseHuntTarget u ub = Some (r, c)" using choose rc by simp
    show "inBounds r c" "\<not> alreadyShot ub (keyOf r c)" by (fact unshot)+
    show "(r + c) mod 2 = 0"
      if "\<exists>r' c'. inBounds r' c' \<and> \<not> alreadyShot ub (keyOf r' c') \<and> (r' + c') mod 2 = 0"
      using that by (elim exE conjE) (rule even)
    show "aiDecideNextShot u g = Inr (Some (r, c), g)"
      if "userBoard g = ub \<and> mode (aiState g) = HUNT" for g
      using that by (elim conjE) (rule decide)
  qed
qed

lemma all_cells_first: "all_cells = (0, 0) # tl all_cells"
proof -
  have "[0..9] = (0::int) # [1..9]"
    using upto_rec1 [of 0 9] by simp
  then show ?thesis
    by (simp add: all_cells_def GRID_SIZE_def)
qed

lemma hunt_first:
  assumes "members (hitCells ub) = {}" "members (missCells ub) = {}"
  shows "aiChooseHuntTarget 0 ub = Some (0, 0)"
proof -
  have "unshot_cells ub = all_cells"
    using assms by (simp add: unshot_cells_def alreadyShot_def set_has_members)
  then have "unshot_cells ub = (0, 0) # tl all_cells"
    using all_cells_first by simp
  then show ?thesis
    by (simp add: aiChooseHuntTarget_def Let_def randomInt_def)
qed

lemma seeded_board_facts:
  "members (hitCells seeded_board) = {}" "members (missCells seeded_board) = {}"
  "members (shipCells seeded_board) = {keyOf 4 3, keyOf 4 4, keyOf 4 5}"
  by (simp_all add: seeded_board_def createEmptyBoard_def)

theorem hunt_target_total_witness:
  "aiChooseHuntTarget 0 seeded_board = Some (0, 0) \<and> inBounds 0 0 \<and>
   \<not> alreadyShot seeded_board (keyOf 0 0) \<and> (0 + 0) mod 2 = (0::int) \<and>
   aiDecideNextShot 0 ai_hunt_game = Inr (Some (0, 0), ai_hunt_game)"
proof -
  have b: "inBounds 0 0" by (simp add: inBounds_def GRID_SIZE_def)
  have f: "\<not> alreadyShot seeded_board (keyOf 0 0)"
    by (simp add: alreadyShot_def set_has_members seeded_board_facts)
  have v: "aiChooseHuntTarget 0 seeded_board = Some (0, 0)"
    by (simp add: hunt_first seeded_board_facts)
  have a: "userBoard ai_hunt_game = seeded_board" "mode (aiState ai_hunt_game) = HUNT"
    by (simp_all add: ai_hunt_game_def seeded_game_def fresh_game_def)
  from hunt_target_total [of 0 0 0 seeded_board, OF _ _ b f] v b f a
  show ?thesis by auto
qed

subsection \<open>Keys of the grid\<close>

lemma all_keys_inBounds: "inBounds r c \<Longrightarrow> keyOf r c \<in> all_keys"
  unfolding all_keys_def using inBounds_all_cells [of r c]
  by (auto simp: image_iff intro!: bexI [of _ "(r, c)"])

lemma all_keys_cases:
  assumes "k \<in> all_keys"
  obtains r c where "inBounds r c" "k = keyOf r c" "parseKey k = Inr (r, c)"
proof -
  from assms obtain p where p: "p \<in> set all_cells" "k = keyOf (fst p) (snd p)"
    unfolding all_keys_def by (auto simp: case_prod_beta)
  then have "inBounds (fst p) (snd p)" by (simp add: all_cells_iff)
  with p that [of "fst p" "snd p"] show thesis
    by (simp add: parseKey_keyOf)
qed

lemma markCell_inBounds: "inBounds r c \<Longrightarrow> markCell r c = Inr ()"
proof -
  assume "inBounds r c"
  then have "0 \<le> r" "r \<le> 9" "0 \<le> c" "c \<le> 9"
    by (simp_all add: inBounds_def GRID_SIZE_def)
  then have "0 \<le> r * 10 + c" "r * 10 + c < 100" by linarith+
  then show ?thesis by (simp add: markCell_def GRID_SIZE_def)
qed

lemma paint_cells_grid: "set ks \<subseteq> all_keys \<Longrightarrow> paint_cells ks = Inr ()"
proof (induction ks)
  case Nil
  show ?case by simp
next
  case (Cons k ks)
  then have "k \<in> all_keys" by simp
  then obtain r c where "inBounds r c" "parseKey k = Inr (r, c)"
    by (rule all_keys_cases)
  with Cons show ?case by (simp add: markCell_inBounds)
qed

lemma paint_board_grid:
  "members (hitCells b) \<union> members (missCells b) \<subseteq> all_keys \<Longrightarrow> paint_board b = Inr ()"
  by (simp add: paint_board_def paint_cells_grid members_def)

subsection \<open>The targeting engine stays on the grid\<close>

lemma visit_neighbors_grid:
  "visit_neighbors ub nbs visited queue = (v', q') \<Longrightarrow>
   \<forall>nb \<in> set nbs. keyOf (fst nb) (snd nb) \<in> all_keys \<Longrightarrow>
   members visited \<subseteq> all_keys \<Longrightarrow> set queue \<subseteq> all_keys \<Longrightarrow>
   members v' \<subseteq> all_keys \<and> set q' \<subseteq> all_keys \<and> members visited \<subseteq> members v'"
proof (induction nbs arbitrary: visited queue)
  case Nil
  then show ?case by simp
next
  case (Cons nb nbs)
  let ?nk = "keyOf (fst nb) (snd nb)"
  from Cons.prems(2) have nk: "?nk \<in> all_keys"
    and rest: "\<forall>nb \<in> set nbs. keyOf (fst nb) (snd nb) \<in> all_keys"
    by simp_all
  show ?case
  proof (cases "\<not> set_has visited ?nk \<and> set_has (hitCells ub) ?nk")
    case True
    with Cons.prems(1)
    have step: "visit_neighbors ub nbs (set_add visited ?nk) (queue @ [?nk]) = (v', q')"
      by (simp add: Let_def)
    have "members (set_add visited ?nk) \<subseteq> all_keys" "set (queue @ [?nk]) \<subseteq> all_keys"
      using nk Cons.prems(3,4) by simp_all
    from Cons.IH [OF step rest this] show ?thesis by simp
  next
    case False
    with Cons.prems(1) have step: "visit_neighbors ub nbs visited queue = (v', q')"
      by (simp add: Let_def)
    from Cons.IH [OF step rest Cons.prems(3,4)] show ?thesis .
  qed
qed

lemma neighbors4_grid: "\<forall>nb \<in> set (neighbors4 r c). keyOf (fst nb) (snd nb) \<in> all_keys"
  using neighbors4_keys by blast

lemma bfs_loop_grid:
  "members visited \<subseteq> all_keys \<Longrightarrow> set queue \<subseteq> all_keys \<Longrightarrow>
   \<exists>cl. bfs_loop ub visited queue = Inr cl \<and> set cl \<subseteq> all_keys \<and> members visited \<subseteq> set cl"
proof (induction ub visited queue rule: bfs_loop.induct)
  case (1 ub visited)
  then show ?case by (simp add: members_def)
next
  case (2 ub visited k queue)
  from "2.prems"(2) have "k \<in> all_keys" by simp
  then obtain r c where k: "parseKey k = Inr (r, c)"
    by (rule all_keys_cases)
  obtain v' q' where vn: "visit_neighbors ub (neighbors4 r c) visited queue = (v', q')"
    by (cases "visit_neighbors ub (neighbors4 r c) visited queue")
  from "2.prems"(2) have q: "set queue \<subseteq> all_keys" by simp
  from visit_neighbors_grid [OF vn neighbors4_grid "2.prems"(1) q]
  have g: "members v' \<subseteq> all_keys" "set q' \<subseteq> all_keys" "members visited \<subseteq> members v'"
    by simp_all
  have "\<exists>cl. bfs_loop ub v' q' = Inr cl \<and> set cl \<subseteq> all_keys \<and> members v' \<subseteq> set cl"
    using "2.IH" [OF k, of v' q'] vn g(1,2) by simp
  then obtain cl where "bfs_loop ub v' q' = Inr cl" "set cl \<subseteq> all_keys" "members v' \<subseteq> set cl"
    by blast
  with k vn g(3) show ?case by auto
qed

lemma recomputeClusterFromHit_grid:
  assumes "k \<in> all_keys"
  obtains cl where "recomputeClusterFromHit ub k = Inr cl" "set cl \<subseteq> all_keys" "k \<in> set cl"
proof -
  have "members (set_add set_empty k) \<subseteq> all_keys" "set [k] \<subseteq> all_keys"
    using assms by simp_all
  from bfs_loop_grid [OF this, of ub] that show thesis
    by (auto simp: recomputeClusterFromHit_def)
qed

lemma push_unshot_grid:
  "\<forall>nb \<in> set nbs. keyOf (fst nb) (snd nb) \<in> all_keys \<Longrightarrow>
   set (push_unshot ub nbs queue) \<subseteq> set queue \<union> all_keys"
proof (induction nbs arbitrary: queue)
  case Nil
  show ?case by simp
next
  case (Cons nb nbs)
  let ?q = "if \<not> alreadyShot ub (keyOf (fst nb) (snd nb))
            then uniquePush queue (keyOf (fst nb) (snd nb)) else queue"
  from Cons.prems have nk: "keyOf (fst nb) (snd nb) \<in> all_keys"
    and rest: "\<forall>nb \<in> set nbs. keyOf (fst nb) (snd nb) \<in> all_keys" by simp_all
  have "set ?q \<subseteq> set queue \<union> all_keys"
    using nk by (auto simp: uniquePush_def)
  moreover from Cons.IH [OF rest, of ?q] have "set (push_unshot ub nbs ?q) \<subseteq> set ?q \<union> all_keys" .
  ultimately show ?case by (auto simp: Let_def)
qed

lemma aiQueueAdjacentsFromHits_grid:
  "set cl \<subseteq> all_keys \<Longrightarrow>
   \<exists>q'. aiQueueAdjacentsFromHits ub cl queue = Inr q' \<and> set q' \<subseteq> set queue \<union> all_keys"
proof (induction cl arbitrary: queue)
  case Nil
  show ?case by simp
next
  case (Cons hk hks)
  then have "hk \<in> all_keys" and rest: "set hks \<subseteq> all_keys" by simp_all
  then obtain r c where k: "parseKey hk = Inr (r, c)"
    by (auto elim: all_keys_cases)
  let ?q = "push_unshot ub (neighbors4 r c) queue"
  from Cons.IH [OF rest, of ?q] obtain q' where
    q': "aiQueueAdjacentsFromHits ub hks ?q = Inr q'" "set q' \<subseteq> set ?q \<union> all_keys"
    by blast
  from push_unshot_grid [OF neighbors4_grid [of r c], of ub queue] q'(2)
  have "set q' \<subseteq> set queue \<union> all_keys" by blast
  with k q'(1) show ?case by simp
qed

lemma parse_all_grid:
  "set cl \<subseteq> all_keys \<Longrightarrow> \<exists>ps. parse_all cl = Inr ps \<and> length ps = length cl"
proof (induction cl)
  case Nil
  show ?case by simp
next
  case (Cons k ks)
  then have "k \<in> all_keys" by simp
  then obtain r c where k: "parseKey k = Inr (r, c)"
    by (auto elim: all_keys_cases)
  from Cons obtain ps where "parse_all ks = Inr ps" "length ps = length ks" by auto
  with k show ?case by simp
qed

lemma inferOrientation_grid:
  "set cl \<subseteq> all_keys \<Longrightarrow> \<exists>ori. inferOrientation cl = Inr ori"
  using parse_all_grid [of cl]
  by (auto simp: inferOrientation_def Let_def)

lemma front_of_grid: "set (front_of ub a b) \<subseteq> all_keys"
  by (auto simp: front_of_def all_keys_inBounds)

lemma extendLineTargets_grid:
  assumes "set cl \<subseteq> all_keys" "cl \<noteq> []"
  shows "\<exists>q'. extendLineTargets ub cl ori queue = Inr q' \<and> set q' \<subseteq> set queue \<union> all_keys"
proof -
  from parse_all_grid [OF assms(1)] assms(2) obtain p0 ps where
    ps: "parse_all cl = Inr (p0 # ps)"
    by (cases cl) (auto split: sum.splits)
  from aiQueueAdjacentsFromHits_grid [OF assms(1), of ub queue] obtain q1 where
    q1: "aiQueueAdjacentsFromHits ub cl queue = Inr q1" "set q1 \<subseteq> set queue \<union> all_keys"
    by blast
  show ?thesis
    using ps q1
    by (cases ori) (auto simp: extendLineTargets_def Let_def dest: subsetD [OF front_of_grid])
qed

lemma aiAfterHit_grid:
  assumes "k \<in> all_keys"
  shows "\<exists>g'. aiAfterHit g k = Inr g' \<and>
           userBoard g' = userBoard g \<and> aiBoard g' = aiBoard g \<and>
           currentTurn g' = currentTurn g \<and> gameOver g' = gameOver g \<and>
           userShots g' = userShots g \<and> aiShots g' = aiShots g \<and>
           mode (aiState g') = TARGET \<and>
           set (targetQueue (aiState g')) \<subseteq> set (targetQueue (aiState g)) \<union> all_keys \<and>
           set (clusterHits (aiState g')) \<subseteq> all_keys"
proof -
  from assms obtain cl where cl: "recomputeClusterFromHit (userBoard g) k = Inr cl"
    "set cl \<subseteq> all_keys" "k \<in> set cl"
    by (rule recomputeClusterFromHit_grid)
  from aiQueueAdjacentsFromHits_grid [OF cl(2)] obtain q1 where
    q1: "aiQueueAdjacentsFromHits (userBoard g) cl (targetQueue (aiState g)) = Inr q1"
    "set q1 \<subseteq> set (targetQueue (aiState g)) \<union> all_keys"
    by blast
  from inferOrientation_grid [OF cl(2)] obtain ori where ori: "inferOrientation cl = Inr ori"
    by blast
  show ?thesis
  proof (cases ori)
    case None
    with cl q1 ori show ?thesis by (simp add: aiAfterHit_def)
  next
    case (Some d)
    from cl(3) have "cl \<noteq> []" by auto
    from extendLineTargets_grid [OF cl(2) this, of "userBoard g" d q1] obtain q2 where
      q2: "extendLineTargets (userBoard g) cl d q1 = Inr q2" "set q2 \<subseteq> set q1 \<union> all_keys"
      by blast
    from q2(2) q1(2) have "set q2 \<subseteq> set (targetQueue (aiState g)) \<union> all_keys" by blast
    with cl q1 ori Some q2(1) show ?thesis by (simp add: aiAfterHit_def)
  qed
qed

lemma aiChooseTargetModeCell_grid:
  "set queue \<subseteq> all_keys \<Longrightarrow>
   \<exists>t q'. aiChooseTargetModeCell ub queue = Inr (t, q') \<and> set q' \<subseteq> set queue \<and>
     (\<forall>r c. t = Some (r, c) \<longrightarrow> inBounds r c \<and> \<not> alreadyShot ub (keyOf r c))"
proof (induction queue)
  case Nil
  show ?case by simp
next
  case (Cons k queue)
  then have "k \<in> all_keys" and rest: "set queue \<subseteq> all_keys" by simp_all
  then obtain r c where k: "inBounds r c" "k = keyOf r c" "parseKey k = Inr (r, c)"
    by (auto elim: all_keys_cases)
  show ?case
  proof (cases "alreadyShot ub k")
    case True
    with Cons.IH [OF rest] show ?thesis by auto
  next
    case False
    with k show ?thesis by auto
  qed
qed

lemma aiChooseHuntTarget_Some:
  assumes "aiChooseHuntTarget u ub = Some (r, c)"
  shows "inBounds r c \<and> \<not> alreadyShot ub (keyOf r c)"
proof -
  define pool where "pool =
    (if filter (\<lambda>p. (fst p + snd p) mod 2 = 0) (unshot_cells ub) \<noteq> []
     then filter (\<lambda>p. (fst p + snd p) mod 2 = 0) (unshot_cells ub)
     else filter (\<lambda>p. (fst p + snd p) mod 2 \<noteq> 0) (unshot_cells ub))"
  define i where "i = randomInt u 0 (int (length pool) - 1)"
  have "aiChooseHuntTarget u ub =
      (if 0 \<le> i \<and> i < int (length pool) then Some (pool ! nat i) else None)"
    unfolding aiChooseHuntTarget_def Let_def i_def pool_def by (rule refl)
  with assms have i: "0 \<le> i" "i < int (length pool)" and rc: "pool ! nat i = (r, c)"
    by (auto split: if_splits)
  from i have "pool ! nat i \<in> set pool" by simp
  moreover have "set pool \<subseteq> set (unshot_cells ub)" by (auto simp: pool_def)
  ultimately have "(r, c) \<in> set (unshot_cells ub)" using rc by auto
  then show ?thesis by (simp add: unshot_cells_iff)
qed

lemma aiDecideNextShot_grid:
  assumes "set (targetQueue (aiState g)) \<subseteq> all_keys"
  shows "\<exists>t g0. aiDecideNextShot u g = Inr (t, g0) \<and>
           userBoard g0 = userBoard g \<and> aiBoard g0 = aiBoard g \<and>
           currentTurn g0 = currentTurn g \<and> gameOver g0 = gameOver g \<and>
           userShots g0 = userShots g \<and> aiShots g0 = aiShots g \<and>
           set (targetQueue (aiState g0)) \<subseteq> all_keys \<and>
           set (clusterHits (aiState g0)) \<subseteq> set (clusterHits (aiState g)) \<and>
           (\<forall>r c. t = Some (r, c) \<longrightarrow> inBounds r c \<and> \<not> alreadyShot (userBoard g) (keyOf r c))"
proof (cases "mode (aiState g) = TARGET")
  case True
  from aiChooseTargetModeCell_grid [OF assms, of "userBoard g"] obtain t q' where
    t: "aiChooseTargetModeCell (userBoard g) (targetQueue (aiState g)) = Inr (t, q')"
    "set q' \<subseteq> set (targetQueue (aiState g))"
    "\<forall>r c. t = Some (r, c) \<longrightarrow> inBounds r c \<and> \<not> alreadyShot (userBoard g) (keyOf r c)"
    by blast
  show ?thesis
  proof (cases t)
    case None
    with True t assms show ?thesis
      by (auto simp: aiDecideNextShot_def dest: aiChooseHuntTarget_Some)
  next
    case (Some p)
    with True t assms show ?thesis
      by (auto simp: aiDecideNextShot_def)
  qed
next
  case False
  with assms show ?thesis
    by (auto simp: aiDecideNextShot_def dest: aiChooseHuntTarget_Some)
qed

subsection \<open>Shots at cells of the grid\<close>

lemma applyShot_inBounds:
  "inBounds r c \<Longrightarrow> \<not> alreadyShot b (keyOf r c) \<Longrightarrow>
   applyShot b r c =
     (Inr (Shot (set_has (shipCells b) (keyOf r c)) (keyOf r c)),
      if set_has (shipCells b) (keyOf r c) then b\<lparr>hitCells := set_add (hitCells b) (keyOf r c)\<rparr>
      else b\<lparr>missCells := set_add (missCells b) (keyOf r c)\<rparr>)"
  by (simp add: applyShot_def Let_def markCell_inBounds)

lemma applyShot_grid:
  "inBounds r c \<Longrightarrow> members (hitCells b) \<union> members (missCells b) \<subseteq> all_keys \<Longrightarrow>
   members (hitCells (snd (applyShot b r c))) \<union> members (missCells (snd (applyShot b r c)))
     \<subseteq> all_keys"
  using all_keys_inBounds [of r c]
  by (auto simp: applyShot_def Let_def)

lemma onUserFireAtAI_frame:
  "userBoard (snd (onUserFireAtAI g r c)) = userBoard g \<and>
   aiState (snd (onUserFireAtAI g r c)) = aiState g \<and>
   (aiBoard (snd (onUserFireAtAI g r c)) = aiBoard g \<or>
    aiBoard (snd (onUserFireAtAI g r c)) = snd (applyShot (aiBoard g) r c))"
proof (cases "applyShot (aiBoard g) r c")
  case (Pair out b)
  then show ?thesis
    by (cases out; cases "projr out")
       (auto simp: onUserFireAtAI_def Let_def endGame_def split: sum.splits shot_result.splits)
qed

lemma onUserFireAtAI_grid:
  assumes "keys_in_grid g" "inBounds r c"
  shows "keys_in_grid (snd (onUserFireAtAI g r c))"
proof -
  from assms have "members (hitCells (aiBoard g)) \<union> members (missCells (aiBoard g)) \<subseteq> all_keys"
    by (simp add: keys_in_grid_def)
  from applyShot_grid [OF assms(2) this] onUserFireAtAI_frame [of g r c] assms(1)
  show ?thesis
    unfolding keys_in_grid_def by (elim conjE disjE) simp_all
qed

lemma aiTakeTurnLoop_hit:
  assumes "\<not> gameOver g" "currentTurn g = AI"
    and dec: "aiDecideNextShot u g = Inr (Some (r, c), g0)"
    and cell: "inBounds r c" "\<not> alreadyShot (userBoard g0) (keyOf r c)"
    and hit: "set_has (shipCells (userBoard g0)) (keyOf r c)"
  shows "\<exists>g2. aiAfterHit
                (g0\<lparr>userBoard := (userBoard g0)\<lparr>hitCells := set_add (hitCells (userBoard g0)) (keyOf r c)\<rparr>,
                    aiShots := (aiShots g0)\<lparr>hits := hits (aiShots g0) + 1\<rparr>\<rparr>) (keyOf r c) = Inr g2 \<and>
           userBoard g2 = (userBoard g0)\<lparr>hitCells := set_add (hitCells (userBoard g0)) (keyOf r c)\<rparr> \<and>
           aiBoard g2 = aiBoard g0 \<and> currentTurn g2 = currentTurn g0 \<and> gameOver g2 = gameOver g0 \<and>
           set (targetQueue (aiState g2)) \<subseteq> set (targetQueue (aiState g0)) \<union> all_keys \<and>
           set (clusterHits (aiState g2)) \<subseteq> all_keys \<and>
           aiTakeTurnLoop u g =
             (if hasWon (userBoard g2) then (Inr False, endGame g2)
              else (Inr True, g2\<lparr>currentTurn := AI\<rparr>))"
proof -
  let ?g1 = "g0\<lparr>userBoard := (userBoard g0)\<lparr>hitCells := set_add (hitCells (userBoard g0)) (keyOf r c)\<rparr>,
                 aiShots := (aiShots g0)\<lparr>hits := hits (aiShots g0) + 1\<rparr>\<rparr>"
  from aiAfterHit_grid [OF all_keys_inBounds [OF cell(1)], of ?g1] obtain g2 where
    g2: "aiAfterHit ?g1 (keyOf r c) = Inr g2" "userBoard g2 = userBoard ?g1"
    "aiBoard g2 = aiBoard ?g1" "currentTurn g2 = currentTurn ?g1" "gameOver g2 = gameOver ?g1"
    "set (targetQueue (aiState g2)) \<subseteq> set (targetQueue (aiState ?g1)) \<union> all_keys"
    "set (clusterHits (aiState g2)) \<subseteq> all_keys"
    by blast
  have "aiTakeTurnLoop u g =
      (if hasWon (userBoard g2) then (Inr False, endGame g2) else (Inr True, g2\<lparr>currentTurn := AI\<rparr>))"
    using assms(1,2) dec hit g2(1)
    by (simp add: aiTakeTurnLoop_def applyShot_inBounds [OF cell] Let_def)
  with g2 show ?thesis by simp
qed

lemma aiTakeTurnLoop_miss:
  assumes "\<not> gameOver g" "currentTurn g = AI"
    and dec: "aiDecideNextShot u g = Inr (Some (r, c), g0)"
    and cell: "inBounds r c" "\<not> alreadyShot (userBoard g0) (keyOf r c)"
    and miss: "\<not> set_has (shipCells (userBoard g0)) (keyOf r c)"
  shows "aiTakeTurnLoop u g =
           (Inr False,
            (aiAfterMiss
               (g0\<lparr>userBoard := (userBoard g0)\<lparr>missCells := set_add (missCells (userBoard g0)) (keyOf r c)\<rparr>,
                   aiShots := (aiShots g0)\<lparr>misses := misses (aiShots g0) + 1\<rparr>\<rparr>))
            \<lparr>currentTurn := USER\<rparr>)"
  using assms(1,2) dec miss
  by (simp add: aiTakeTurnLoop_def applyShot_inBounds [OF cell])

lemma aiAfterMiss_frame:
  "userBoard (aiAfterMiss g) = userBoard g \<and> aiBoard (aiAfterMiss g) = aiBoard g \<and>
   currentTurn (aiAfterMiss g) = currentTurn g \<and> gameOver (aiAfterMiss g) = gameOver g \<and>
   targetQueue (aiState (aiAfterMiss g)) = targetQueue (aiState g) \<and>
   set (clusterHits (aiState (aiAfterMiss g))) \<subseteq> set (clusterHits (aiState g))"
  by (simp add: aiAfterMiss_def)

lemma aiTakeTurnLoop_grid:
  assumes "keys_in_grid g"
  shows "keys_in_grid (snd (aiTakeTurnLoop u g)) \<and> fst (aiTakeTurnLoop u g) \<noteq> Inl NotModelled"
proof (cases "gameOver g \<or> currentTurn g \<noteq> AI")
  case True
  with assms show ?thesis by (auto simp: aiTakeTurnLoop_def)
next
  case False
  then have go: "\<not> gameOver g" "currentTurn g = AI" by simp_all
  from assms have q: "set (targetQueue (aiState g)) \<subseteq> all_keys"
    by (simp add: keys_in_grid_def)
  from aiDecideNextShot_grid [OF q, of u] obtain t g0 where
    dec: "aiDecideNextShot u g = Inr (t, g0)"
    and fr: "userBoard g0 = userBoard g" "aiBoard g0 = aiBoard g"
    and q0: "set (targetQueue (aiState g0)) \<subseteq> all_keys"
    and c0: "set (clusterHits (aiState g0)) \<subseteq> set (clusterHits (aiState g))"
    and t: "\<forall>r c. t = Some (r, c) \<longrightarrow> inBounds r c \<and> \<not> alreadyShot (userBoard g) (keyOf r c)"
    by blast
  from assms fr q0 c0 have g0: "keys_in_grid g0"
    unfolding keys_in_grid_def by auto
  show ?thesis
  proof (cases t)
    case None
    with go dec g0 show ?thesis by (simp add: aiTakeTurnLoop_def)
  next
    case (Some p)
    obtain r c where p: "p = (r, c)" by (cases p)
    with Some t fr have cell: "inBounds r c" "\<not> alreadyShot (userBoard g0) (keyOf r c)"
      by simp_all
    from dec Some p have dec': "aiDecideNextShot u g = Inr (Some (r, c), g0)" by simp
    have k: "keyOf r c \<in> all_keys" by (rule all_keys_inBounds [OF cell(1)])
    show ?thesis
    proof (cases "set_has (shipCells (userBoard g0)) (keyOf r c)")
      case True
      from aiTakeTurnLoop_hit [OF go dec' cell True] obtain g2 where
        g2: "userBoard g2 = (userBoard g0)\<lparr>hitCells := set_add (hitCells (userBoard g0)) (keyOf r c)\<rparr>"
        "aiBoard g2 = aiBoard g0"
        "set (targetQueue (aiState g2)) \<subseteq> set (targetQueue (aiState g0)) \<union> all_keys"
        "set (clusterHits (aiState g2)) \<subseteq> all_keys"
        "aiTakeTurnLoop u g =
           (if hasWon (userBoard g2) then (Inr False, endGame g2)
            else (Inr True, g2\<lparr>currentTurn := AI\<rparr>))"
        by blast
      from g0 g2(1-4) k have "keys_in_grid g2"
        unfolding keys_in_grid_def by auto
      with g2(5) show ?thesis
        by (simp add: keys_in_grid_def endGame_def)
    next
      case False
      let ?g1 = "g0\<lparr>userBoard := (userBoard g0)\<lparr>missCells := set_add (missCells (userBoard g0)) (keyOf r c)\<rparr>,
                     aiShots := (aiShots g0)\<lparr>misses := misses (aiShots g0) + 1\<rparr>\<rparr>"
      from g0 k have "keys_in_grid ?g1"
        unfolding keys_in_grid_def by auto
      with aiAfterMiss_frame [of ?g1] have "keys_in_grid ((aiAfterMiss ?g1)\<lparr>currentTurn := USER\<rparr>)"
        unfolding keys_in_grid_def by auto
      with aiTakeTurnLoop_miss [OF go dec' cell False] show ?thesis by simp
    qed
  qed
qed

subsection \<open>The states of play stay on the grid\<close>

lemma placeOneShipRandomly_shots:
  assumes "placeOneShipRandomly rnd n b len = Some y"
  shows "hitCells (fst y) = hitCells b \<and> missCells (fst y) = missCells b"
proof (rule placeOneShipRandomly.raw_induct
    [where P = "\<lambda>rnd n b len y. hitCells (fst y) = hitCells b \<and> missCells (fst y) = missCells b",
     OF _ assms])
  fix f :: "(nat \<Rightarrow> real) \<Rightarrow> nat \<Rightarrow> board \<Rightarrow> int \<Rightarrow> (board \<times> nat) option"
  fix rnd n b len y
  assume IH: "\<And>rnd n b len y. f rnd n b len = Some y \<Longrightarrow>
    hitCells (fst y) = hitCells b \<and> missCells (fst y) = missCells b"
  assume body: "(let candidate = draw_candidate rnd n len in
      if list_ex (set_has (shipCells b)) candidate then f rnd (n + 3) b len
      else Some (b\<lparr>shipCells := fold (\<lambda>k s. set_add s k) candidate (shipCells b)\<rparr>, n + 3))
    = Some y"
  show "hitCells (fst y) = hitCells b \<and> missCells (fst y) = missCells b"
  proof (cases "list_ex (set_has (shipCells b)) (draw_candidate rnd n len)")
    case True
    with body have "f rnd (n + 3) b len = Some y" by (simp add: Let_def)
    then show ?thesis by (rule IH)
  next
    case False
    with body show ?thesis by (auto simp: Let_def)
  qed
qed

lemma place_each_shots:
  "place_each rnd n b lens = Some y \<Longrightarrow>
   hitCells (fst y) = hitCells b \<and> missCells (fst y) = missCells b"
proof (induction lens arbitrary: n b)
  case Nil
  then show ?case by auto
next
  case (Cons len lens)
  then obtain b' n' where one: "placeOneShipRandomly rnd n b len = Some (b', n')"
    and rest: "place_each rnd n' b' lens = Some y"
    by (auto split: option.splits)
  from placeOneShipRandomly_shots [OF one] Cons.IH [OF rest] show ?case by simp
qed

lemma resetGame_grid:
  assumes "resetGame rnd n = Some (g, n')"
  shows "keys_in_grid g"
proof -
  from assms obtain ub n1 ab where
    ub: "place_each rnd n createEmptyBoard SHIPS = Some (ub, n1)"
    and ab: "place_each rnd n1 createEmptyBoard SHIPS = Some (ab, n')"
    and g: "g = fresh_game\<lparr>userBoard := ub, aiBoard := ab\<rparr>"
    by (auto simp: resetGame_def placeAllShipsRandomly_def fresh_game_def split: option.splits)
  from place_each_shots [OF ub] place_each_shots [OF ab] g show ?thesis
    by (simp add: keys_in_grid_def fresh_game_def createEmptyBoard_def)
qed

lemma reachable_grid: "reachable g \<Longrightarrow> keys_in_grid g"
proof (induction rule: reachable.induct)
  case (reset rnd n g n')
  then show ?case by (simp add: resetGame_grid)
next
  case (user_fire g r c)
  then show ?case by (simp add: onUserFireAtAI_grid)
next
  case (ai_turn g u)
  then show ?case by (simp add: aiTakeTurnLoop_grid)
qed

lemma roundtrip_grid:
  assumes "members (hitCells (userBoard g)) \<union> members (missCells (userBoard g)) \<subseteq> all_keys"
    and "members (hitCells (aiBoard g)) \<union> members (missCells (aiBoard g)) \<subseteq> all_keys"
  shows "loadGame (Some (saveGame g subtitle status)) = Inr (Some g)"
proof -
  have t: "(if turn_text (currentTurn g) = ''AI'' then AI else USER) = currentTurn g"
    by (cases "currentTurn g") (simp_all add: turn_text_def)
  have m: "(if mode_text (mode (aiState g)) = ''TARGET'' then TARGET else HUNT) = mode (aiState g)"
    by (cases "mode (aiState g)") (simp_all add: mode_text_def)
  have p: "paint_board (userBoard g) = Inr ()" "paint_board (aiBoard g) = Inr ()"
    by (rule paint_board_grid [OF assms(1)], rule paint_board_grid [OF assms(2)])
  show ?thesis
    by (simp add: loadGame_def saveGame_def getprop_def truthy_def t m p Let_def)
qed

text \<open>
  C5. In every state of play (one \<^verbatim>\<open>resetGame\<close> set up, or one left by the click handler
  at a cell of the grid or by the computer's turn from such a state), loading what
  \<^verbatim>\<open>saveGame\<close> wrote returns \<^verbatim>\<open>true\<close> with the state it was written from: both boards'
  three sets (in insertion order), the turn, the game-over flag, both tallies and the
  targeting state, whatever its mode, queue and cluster. Every key restored is the key of a
  cell of the grid, so painting the restored shots does not throw.
\<close>

theorem save_load_roundtrip:
  "reachable g \<Longrightarrow> loadGame (Some (saveGame g subtitle status)) = Inr (Some g)"
  using reachable_grid [of g] roundtrip_grid [of g subtitle status]
  by (simp add: keys_in_grid_def)

subsection \<open>Turns\<close>

lemma user_shot_turn:
  assumes "\<not> gameOver g" "currentTurn g = USER"
    and cell: "inBounds r c" "\<not> alreadyShot (aiBoard g) (keyOf r c)"
  shows "(set_has (shipCells (aiBoard g)) (keyOf r c) \<and>
            \<not> hasWon (aiBoard (snd (onUserFireAtAI g r c)))
          \<longrightarrow> fst (onUserFireAtAI g r c) = Inr False \<and>
              currentTurn (snd (onUserFireAtAI g r c)) = USER \<and>
              \<not> gameOver (snd (onUserFireAtAI g r c))) \<and>
         (\<not> set_has (shipCells (aiBoard g)) (keyOf r c)
          \<longrightarrow> fst (onUserFireAtAI g r c) = Inr True \<and>
              currentTurn (snd (onUserFireAtAI g r c)) = AI \<and>
              \<not> gameOver (snd (onUserFireAtAI g r c)))"
  using assms(1,2)
  by (simp add: onUserFireAtAI_def applyShot_inBounds [OF cell] Let_def endGame_def)

lemma aiDecideNextShot_frame:
  "aiDecideNextShot u g = Inr (t, g0) \<Longrightarrow>
   userBoard g0 = userBoard g \<and> currentTurn g0 = currentTurn g \<and> gameOver g0 = gameOver g"
  by (auto simp: aiDecideNextShot_def split: if_splits sum.splits option.splits prod.splits)

lemma ai_shot_turn:
  assumes "\<not> gameOver g" "currentTurn g = AI"
    and dec: "aiDecideNextShot u g = Inr (Some (r, c), g0)"
    and cell: "inBounds r c" "\<not> alreadyShot (userBoard g0) (keyOf r c)"
  shows "(set_has (shipCells (userBoard g0)) (keyOf r c) \<and>
            \<not> hasWon (userBoard (snd (aiTakeTurnLoop u g)))
          \<longrightarrow> fst (aiTakeTurnLoop u g) = Inr True \<and>
              currentTurn (snd (aiTakeTurnLoop u g)) = AI \<and>
              \<not> gameOver (snd (aiTakeTurnLoop u g))) \<and>
         (\<not> set_has (shipCells (userBoard g0)) (keyOf r c)
          \<longrightarrow> fst (aiTakeTurnLoop u g) = Inr False \<and>
              currentTurn (snd (aiTakeTurnLoop u g)) = USER \<and>
              \<not> gameOver (snd (aiTakeTurnLoop u g)))"
proof -
  from aiDecideNextShot_frame [OF dec] assms(1,2)
  have g0: "\<not> gameOver g0" "currentTurn g0 = AI" by simp_all
  show ?thesis
  proof (cases "set_has (shipCells (userBoard g0)) (keyOf r c)")
    case True
    from aiTakeTurnLoop_hit [OF assms(1,2) dec cell True] obtain g2 where
      g2: "gameOver g2 = gameOver g0"
      "aiTakeTurnLoop u g =
         (if hasWon (userBoard g2) then (Inr False, endGame g2)
          else (Inr True, g2\<lparr>currentTurn := AI\<rparr>))"
      by blast
    with True g0 show ?thesis
      by (simp add: endGame_def)
  next
    case False
    from aiTakeTurnLoop_miss [OF assms(1,2) dec cell False] False g0 show ?thesis
      by (simp add: aiAfterMiss_frame)
  qed
qed

lemma reachable_shot:
  assumes "reachable g" "aiDecideNextShot u g = Inr (Some (r, c), g0)"
  shows "inBounds r c \<and> \<not> alreadyShot (userBoard g0) (keyOf r c)"
proof -
  from reachable_grid [OF assms(1)] have "set (targetQueue (aiState g)) \<subseteq> all_keys"
    by (simp add: keys_in_grid_def)
  from aiDecideNextShot_grid [OF this, of u] assms(2) show ?thesis by auto
qed

text \<open>
  C6. For a shot at a cell of the grid not shot before, fired in the shooter's turn while the
  game is not over: the handler does not throw; after a hit that leaves the defender's board
  not won the shooter still has the turn, and after a miss the other side has it. The first
  part is the user's shot (\<^verbatim>\<open>onUserFireAtAI\<close>, which returns whether the computer's turn
  is to be scheduled), the second the computer's (\<^verbatim>\<open>aiTakeTurnLoop\<close>, at the cell
  \<^verbatim>\<open>aiDecideNextShot\<close> chose, which returns whether it schedules itself again); the rule
  is the same in both. The third part: in a state of play the cell \<^verbatim>\<open>aiDecideNextShot\<close>
  chooses is always a cell of the grid not shot before.
\<close>

theorem turn_rule:
  "(\<not> gameOver gu \<and> currentTurn gu = USER \<and> inBounds r c \<and>
    \<not> alreadyShot (aiBoard gu) (keyOf r c) \<longrightarrow>
      (set_has (shipCells (aiBoard gu)) (keyOf r c) \<and>
         \<not> hasWon (aiBoard (snd (onUserFireAtAI gu r c)))
       \<longrightarrow> fst (onUserFireAtAI gu r c) = Inr False \<and>
           currentTurn (snd (onUserFireAtAI gu r c)) = USER \<and>
           \<not> gameOver (snd (onUserFireAtAI gu r c))) \<and>
      (\<not> set_has (shipCells (aiBoard gu)) (keyOf r c)
       \<longrightarrow> fst (onUserFireAtAI gu r c) = Inr True \<and>
           currentTurn (snd (onUserFireAtAI gu r c)) = AI \<and>
           \<not> gameOver (snd (onUserFireAtAI gu r c)))) \<and>
   (\<not> gameOver ga \<and> currentTurn ga = AI \<and> aiDecideNextShot u ga = Inr (Some (r', c'), g0) \<and>
    inBounds r' c' \<and> \<not> alreadyShot (userBoard g0) (keyOf r' c') \<longrightarrow>
      (set_has (shipCells (userBoard g0)) (keyOf r' c') \<and>
         \<not> hasWon (userBoard (snd (aiTakeTurnLoop u ga)))
       \<longrightarrow> fst (aiTakeTurnLoop u ga) = Inr True \<and>
           currentTurn (snd (aiTakeTurnLoop u ga)) = AI \<and>
           \<not> gameOver (snd (aiTakeTurnLoop u ga))) \<and>
      (\<not> set_has (shipCells (userBoard g0)) (keyOf r' c')
       \<longrightarrow> fst (aiTakeTurnLoop u ga) = Inr False \<and>
           currentTurn (snd (aiTakeTurnLoop u ga)) = USER \<and>
           \<not> gameOver (snd (aiTakeTurnLoop u ga)))) \<and>
   (reachable ga \<and> aiDecideNextShot u ga = Inr (Some (r', c'), g0) \<longrightarrow>
      inBounds r' c' \<and> \<not> alreadyShot (userBoard g0) (keyOf r' c'))"
  using user_shot_turn [of gu r c] ai_shot_turn [of ga u r' c' g0] reachable_shot [of ga u r' c' g0]
  by blast

subsection \<open>A game played from a reset\<close>

lemma demo_draws_range: "\<forall>i. 0 \<le> demo_draws i \<and> demo_draws i < 1"
proof
  fix i
  have "(2 * (i div 3)) mod 10 < (10::nat)" by simp
  then have "real ((2 * (i div 3)) mod 10) < 10" by linarith
  then show "0 \<le> demo_draws i \<and> demo_draws i < 1"
    by (simp add: demo_draws_def)
qed

lemma demo_attempt:
  assumes "1 \<le> len" "len \<le> 10"
  shows "draw_candidate demo_draws (3 * k) len =
           candidate_cells False (int ((2 * k) mod 10)) 0 len"
proof -
  have m: "(3 * k) mod 3 = 0" "Suc (3 * k) mod 3 = 1" "Suc (Suc (3 * k)) mod 3 = 2"
    "Suc (3 * k) div 3 = k"
    by presburger+
  have d: "demo_draws (3 * k) = 1 / 2" "demo_draws (Suc (3 * k)) = real ((2 * k) mod 10) / 10"
    "demo_draws (Suc (Suc (3 * k))) = 0"
    unfolding demo_draws_def by (simp_all only: m) simp_all
  have "\<lfloor>real ((2 * k) mod 10) / 10 * 10\<rfloor> = int ((2 * k) mod 10)" by simp
  then show ?thesis
    using assms by (simp add: draw_candidate_def Let_def d randomInt_def GRID_SIZE_def)
qed

lemma demo_place:
  assumes "1 \<le> len" "len \<le> 10"
    and "\<not> list_ex (set_has (shipCells b)) (candidate_cells False (int ((2 * k) mod 10)) 0 len)"
  shows "placeOneShipRandomly demo_draws (3 * k) b len =
           Some (b\<lparr>shipCells := fold (\<lambda>k s. set_add s k)
                                   (candidate_cells False (int ((2 * k) mod 10)) 0 len)
                                   (shipCells b)\<rparr>, 3 * k + 3)"
  by (subst placeOneShipRandomly.simps) (simp add: demo_attempt [OF assms(1,2)] assms(3))

lemma upto_small:
  "[0..4] = [0, 1, 2, 3, 4::int]" "[0..2] = [0, 1, 2::int]" "[0..1] = [0, 1::int]"
  by code_simp+

lemma demo_cells:
  "candidate_cells False r 0 5 = [keyOf r 0, keyOf r 1, keyOf r 2, keyOf r 3, keyOf r 4]"
  "candidate_cells False r 0 3 = [keyOf r 0, keyOf r 1, keyOf r 2]"
  "candidate_cells False r 0 2 = [keyOf r 0, keyOf r 1]"
  by (simp_all add: candidate_cells_def upto_small)

lemmas demo_keys = demo_cells keyOf_inject inBounds_def GRID_SIZE_def set_has_members list_ex_iff
  members_fold_add createEmptyBoard_def

lemma demo_user_fleet:
  "placeAllShipsRandomly demo_draws 0 createEmptyBoard = Some (userBoard demo_game, 9)"
proof -
  have "placeAllShipsRandomly demo_draws (3 * 0) createEmptyBoard = Some (userBoard demo_game, 9)"
    unfolding placeAllShipsRandomly_def SHIPS_def place_each.simps
    apply (subst demo_place)
       apply (simp_all add: demo_keys)
    apply (subst demo_place [of _ _ 1, simplified])
       apply (simp_all add: demo_keys)
    apply (subst demo_place [of _ _ 2, simplified])
       apply (simp_all add: demo_keys)
    apply (simp add: demo_game_def fresh_game_def set_of_array_def createEmptyBoard_def demo_cells)
    done
  then show ?thesis by simp
qed

lemma demo_ai_fleet:
  "placeAllShipsRandomly demo_draws 9 createEmptyBoard = Some (aiBoard demo_game, 18)"
  unfolding placeAllShipsRandomly_def SHIPS_def place_each.simps
  apply (subst demo_place [of _ _ 3, simplified])
     apply (simp_all add: demo_keys)
  apply (subst demo_place [of _ _ 4, simplified])
     apply (simp_all add: demo_keys)
  apply (subst demo_place [of _ _ 5, simplified])
     apply (simp_all add: demo_keys)
  apply (simp add: demo_game_def fresh_game_def set_of_array_def createEmptyBoard_def demo_cells)
  done

lemma demo_reset: "resetGame demo_draws 0 = Some (demo_game, 18)"
proof -
  have "userBoard fresh_game = createEmptyBoard" "aiBoard fresh_game = createEmptyBoard"
    by (simp_all add: fresh_game_def)
  then show ?thesis
    by (simp add: resetGame_def demo_user_fleet demo_ai_fleet demo_game_def)
qed

lemmas demo_simps =
  demo_game_def demo_missed_def demo_found_def demo_play_def fresh_game_def createEmptyBoard_def
  demo_cells keyOf_inject inBounds_def GRID_SIZE_def set_has_members alreadyShot_def Let_def
  parseKey_keyOf markCell_def set_of_array_def

lemma demo_fire: "onUserFireAtAI demo_game 9 9 = (Inr True, demo_missed)"
  by (simp add: onUserFireAtAI_def applyShot_def demo_simps)

lemma demo_hunt: "aiTakeTurnLoop 0 demo_missed = (Inr True, demo_found)"
proof -
  have "aiChooseHuntTarget 0 (userBoard demo_missed) = Some (0, 0)"
    by (rule hunt_first) (simp_all add: demo_simps)
  then have "aiDecideNextShot 0 demo_missed = Inr (Some (0, 0), demo_missed)"
    by (simp add: aiDecideNextShot_def demo_missed_def demo_game_def fresh_game_def)
  then show ?thesis
    by (simp add: aiTakeTurnLoop_def applyShot_def aiAfterHit_def recomputeClusterFromHit_def
        neighbors4_def uniquePush_def inferOrientation_def extendLineTargets_def front_of_def
        hasWon_def set_size_card endGame_def demo_simps set_add.rep_eq set_empty.rep_eq)
qed

lemma demo_target: "aiTakeTurnLoop 0 demo_found = (Inr False, demo_play)"
  by (simp add: aiTakeTurnLoop_def aiDecideNextShot_def aiChooseTargetModeCell.simps
      applyShot_def aiAfterMiss_def demo_simps)

lemma demo_reachable:
  "reachable demo_game" "reachable demo_missed" "reachable demo_found" "reachable demo_play"
proof -
  show g: "reachable demo_game"
    by (rule reachable.reset [OF demo_draws_range demo_reset])
  have "reachable (snd (onUserFireAtAI demo_game 9 9))"
    by (rule reachable.user_fire [OF g]) (simp add: inBounds_def GRID_SIZE_def)
  then show m: "reachable demo_missed" by (simp add: demo_fire)
  have "reachable (snd (aiTakeTurnLoop 0 demo_missed))"
    by (rule reachable.ai_turn [OF m]) simp_all
  then show f: "reachable demo_found" by (simp add: demo_hunt)
  have "reachable (snd (aiTakeTurnLoop 0 demo_found))"
    by (rule reachable.ai_turn [OF f]) simp_all
  then show "reachable demo_play" by (simp add: demo_target)
qed

theorem save_load_roundtrip_witness:
  "reachable demo_found \<and> mode (aiState demo_found) = TARGET \<and>
   targetQueue (aiState demo_found) = [keyOf 1 0, keyOf 0 1] \<and>
   clusterHits (aiState demo_found) = [keyOf 0 0] \<and>
   loadGame (Some (saveGame demo_found ''Your turn'' ''Hit'')) = Inr (Some demo_found)"
  using save_load_roundtrip [OF demo_reachable(3), of "''Your turn''" "''Hit''"] demo_reachable(3)
  by (simp add: demo_found_def)

lemma demo_hit:
  "onUserFireAtAI demo_game 6 0 =
     (Inr False,
      demo_game\<lparr>aiBoard := (aiBoard demo_game)\<lparr>hitCells := set_of_array [keyOf 6 0]\<rparr>,
                userShots := \<lparr>hits = 1, misses = 0\<rparr>\<rparr>)"
  by (simp add: onUserFireAtAI_def applyShot_def hasWon_def set_size_card endGame_def demo_simps)

lemma demo_decide:
  "aiDecideNextShot 0 demo_missed = Inr (Some (0, 0), demo_missed)"
  "aiDecideNextShot 0 demo_found =
     Inr (Some (1, 0), demo_found\<lparr>aiState := (aiState demo_found)\<lparr>targetQueue := [keyOf 0 1]\<rparr>\<rparr>)"
proof -
  have "aiChooseHuntTarget 0 (userBoard demo_missed) = Some (0, 0)"
    by (rule hunt_first) (simp_all add: demo_simps)
  then show "aiDecideNextShot 0 demo_missed = Inr (Some (0, 0), demo_missed)"
    by (simp add: aiDecideNextShot_def demo_missed_def demo_game_def fresh_game_def)
  show "aiDecideNextShot 0 demo_found =
     Inr (Some (1, 0), demo_found\<lparr>aiState := (aiState demo_found)\<lparr>targetQueue := [keyOf 0 1]\<rparr>\<rparr>)"
    by (simp add: aiDecideNextShot_def aiChooseTargetModeCell.simps demo_simps)
qed

theorem turn_rule_witness:
  "onUserFireAtAI demo_game 6 0 =
     (Inr False,
      demo_game\<lparr>aiBoard := (aiBoard demo_game)\<lparr>hitCells := set_of_array [keyOf 6 0]\<rparr>,
                userShots := \<lparr>hits = 1, misses = 0\<rparr>\<rparr>) \<and>
   currentTurn (snd (onUserFireAtAI demo_game 6 0)) = USER \<and>
   \<not> gameOver (snd (onUserFireAtAI demo_game 6 0)) \<and>
   onUserFireAtAI demo_game 9 9 = (Inr True, demo_missed) \<and>
   currentTurn (snd (onUserFireAtAI demo_game 9 9)) = AI \<and>
   \<not> gameOver (snd (onUserFireAtAI demo_game 9 9)) \<and>
   reachable demo_missed \<and>
   aiDecideNextShot 0 demo_missed = Inr (Some (0, 0), demo_missed) \<and>
   aiTakeTurnLoop 0 demo_missed = (Inr True, demo_found) \<and>
   currentTurn (snd (aiTakeTurnLoop 0 demo_missed)) = AI \<and>
   \<not> gameOver (snd (aiTakeTurnLoop 0 demo_missed)) \<and>
   reachable demo_found \<and>
   aiDecideNextShot 0 demo_found =
     Inr (Some (1, 0), demo_found\<lparr>aiState := (aiState demo_found)\<lparr>targetQueue := [keyOf 0 1]\<rparr>\<rparr>) \<and>
   aiTakeTurnLoop 0 demo_found = (Inr False, demo_play) \<and>
   currentTurn (snd (aiTakeTurnLoop 0 demo_found)) = USER \<and>
   \<not> gameOver (snd (aiTakeTurnLoop 0 demo_found)) \<and>
   inBounds 0 0 \<and> inBounds 1 0"
proof -
  have u: "\<not> gameOver demo_game" "currentTurn demo_game = USER"
    "inBounds 6 0" "\<not> alreadyShot (aiBoard demo_game) (keyOf 6 0)"
    "inBounds 9 9" "\<not> alreadyShot (aiBoard demo_game) (keyOf 9 9)"
    "set_has (shipCells (aiBoard demo_game)) (keyOf 6 0)"
    "\<not> set_has (shipCells (aiBoard demo_game)) (keyOf 9 9)"
    by (simp_all add: demo_simps)
  have w: "\<not> hasWon (aiBoard (snd (onUserFireAtAI demo_game 6 0)))"
    "\<not> hasWon (userBoard (snd (aiTakeTurnLoop 0 demo_missed)))"
    unfolding demo_hit demo_hunt snd_conv
    by (simp_all add: hasWon_def set_size_card demo_simps)
  have a: "\<not> gameOver demo_missed" "currentTurn demo_missed = AI"
    "\<not> gameOver demo_found" "currentTurn demo_found = AI"
    "set_has (shipCells (userBoard demo_missed)) (keyOf 0 0)"
    "\<not> set_has (shipCells
          (userBoard (demo_found\<lparr>aiState := (aiState demo_found)\<lparr>targetQueue := [keyOf 0 1]\<rparr>\<rparr>)))
        (keyOf 1 0)"
    by (simp_all add: demo_simps)
  from turn_rule [where gu = demo_game and r = 6 and c = 0 and ga = demo_missed and u = 0
        and r' = 0 and c' = 0 and ?g0.0 = demo_missed]
    turn_rule [where gu = demo_game and r = 9 and c = 9 and ga = demo_found and u = 0
        and r' = 1 and c' = 0
        and ?g0.0 = "demo_found\<lparr>aiState := (aiState demo_found)\<lparr>targetQueue := [keyOf 0 1]\<rparr>\<rparr>"]
    u w a demo_decide demo_reachable(2,3)
  show ?thesis
    by (simp add: demo_hit demo_fire demo_hunt demo_target)
qed




end
